theory Spec2Isabelle
  imports Complex_Main
begin

section \<open>Data model of \<open>src/index.tsx\<close>\<close>

text \<open>
  The two attachment interfaces. The \<open>type\<close> tag of the source is the choice of
  record. \<open>base64\<close> is the second comma-separated piece of the data URL and is
  \<open>undefined\<close> (here \<open>None\<close>) when the URL has no comma.
\<close>

record AttachedFile =
  file_id :: string
  file_name :: string
  base64 :: "string option"
  mimeType :: string
  sourceUrl :: string

text \<open>
  An \<open>AbortController\<close> is owned by one document only, so it is modelled by the
  field itself: \<open>None\<close> is an absent controller, \<open>Some b\<close> a controller whose
  signal has \<open>aborted = b\<close>.
\<close>

record AttachedDocument =
  doc_id :: string
  doc_name :: string
  textContent :: string
  summary :: "string option"
  abortController :: "bool option"

text \<open>
  A pill element built by \<open>renderAttachments\<close>. A document pill has the
  \<open>.file-name\<close> span and the \<open>.progress-bar\<close> with its inner \<open>div\<close>; an image
  pill has none of them. \<open>barWidth\<close> is the inner bar's width in percent.
\<close>

record pill =
  pill_id :: string
  docPill :: bool
  processing :: bool
  errorClass :: bool
  fileNameText :: string
  barHidden :: bool
  barWidth :: rat

text \<open>
  The module-level state and the part of the page the attachment code touches.
  Document objects and pill elements are shared and mutated through references, so both
  live in a store (a list indexed by the reference, which only grows); \<open>attachedDocs\<close>
  and \<open>container\<close> hold references. \<open>pendingReaders\<close> are the \<open>FileReader\<close>s
  started by \<open>readAsDataURL\<close> whose \<open>onload\<close> has not run yet (file id, name and
  type captured by the callback). \<open>progressCalls\<close> records the calls of
  \<open>updateProgress\<close> in order (file id of the enclosing iteration, status, percentage).
  Percentages are exact rationals here; the source computes them in IEEE doubles.
\<close>

record app_state =
  attachedFiles :: "AttachedFile list"
  attachedDocs :: "nat list"
  docObjects :: "AttachedDocument list"
  pills :: "pill list"
  container :: "nat list"
  containerHidden :: bool
  formEnabled :: bool
  fileInputValue :: string
  chatInputValue :: string
  pendingReaders :: "(string \<times> string \<times> string) list"
  progressCalls :: "(string \<times> string \<times> rat option) list"

section \<open>Strings\<close>

definition digitChar :: "nat \<Rightarrow> char" where
  "digitChar d = ''0123456789'' ! d"

text \<open>Decimal rendering of a non-negative integer, as a template literal does it.\<close>

fun decimal :: "nat \<Rightarrow> string" where
  "decimal n = (if n < 10 then [digitChar n] else decimal (n div 10) @ [digitChar (n mod 10)])"

declare decimal.simps [simp del]

definition showInt :: "int \<Rightarrow> string" where
  "showInt i = (if i < 0 then CHR ''-'' # decimal (nat (- i)) else decimal (nat i))"

text \<open>\<open>`${file.name}-${Date.now()}`\<close>\<close>

definition fileId :: "string \<Rightarrow> int \<Rightarrow> string" where
  "fileId nm now = nm @ ''-'' @ showInt now"

text \<open>\<open>Array.prototype.join\<close>\<close>

fun join :: "string \<Rightarrow> string list \<Rightarrow> string" where
  "join sep [] = []"
| "join sep [x] = x"
| "join sep (x # y # ys) = x @ sep @ join sep (y # ys)"

text \<open>\<open>String.prototype.split(',')\<close>: the pieces between the commas.\<close>

fun splitComma :: "string \<Rightarrow> string list" where
  "splitComma [] = [[]]"
| "splitComma (c # cs) =
     (if c = CHR '','' then [] # splitComma cs
      else (case splitComma cs of [] \<Rightarrow> [[c]] | p # ps \<Rightarrow> (c # p) # ps))"

definition startsWith :: "string \<Rightarrow> string \<Rightarrow> bool" where
  "startsWith pre s = (take (length pre) s = pre)"

text \<open>
  \<open>String.prototype.trim\<close> on the white space an 8-bit character can be: tab, line
  feed, vertical tab, form feed, carriage return, space and no-break space.
\<close>

definition isSpace :: "char \<Rightarrow> bool" where
  "isSpace c = (c \<in> set [CHR 0x09, CHR 0x0A, CHR 0x0B, CHR 0x0C, CHR 0x0D, CHR 0x20, CHR 0xA0])"

definition trim :: "string \<Rightarrow> string" where
  "trim s = rev (dropWhile isSpace (rev (dropWhile isSpace s)))"

section \<open>Rendering and progress display\<close>

definition imagePill :: "AttachedFile \<Rightarrow> pill" where
  "imagePill f = \<lparr>pill_id = file_id f, docPill = False, processing = False,
     errorClass = False, fileNameText = [], barHidden = True, barWidth = 0\<rparr>"

text \<open>
  A document pill gets its content from a template written into \<open>innerHTML\<close> with
  the document's name in the \<open>.file-name\<close> span. For a name the HTML parser reads
  as plain text (no \<open><\<close>, no \<open>&\<close>, no carriage return, no NUL) the pill has the
  span showing the name and the hidden \<open>.progress-bar\<close> with its inner \<open>div\<close>.
  For any other name the elements and the span's text are whatever the browser's parser
  builds from the markup; the parser is not part of the repository, and
  \<open>parsedPill\<close> stands for its result, about which nothing is known. The pill's id
  and class list are set by the source itself in both cases.
\<close>

definition plainName :: "string \<Rightarrow> bool" where
  "plainName nm = (\<forall>c\<in>set nm. c \<notin> set [CHR ''<'', CHR ''&'', CHR 0x0D, CHR 0x00])"

definition parsedPill :: "string \<Rightarrow> pill" where
  "parsedPill = (SOME f. True)"

definition documentPill :: "AttachedDocument \<Rightarrow> pill" where
  "documentPill d =
     (if plainName (doc_name d)
      then \<lparr>pill_id = doc_id d, docPill = True, processing = False,
             errorClass = False, fileNameText = doc_name d, barHidden = True, barWidth = 0\<rparr>
      else (parsedPill (doc_name d))\<lparr>pill_id := doc_id d, processing := False,
             errorClass := False\<rparr>)"

text \<open>
  \<open>renderAttachments\<close>: the container is emptied and one new pill per attachment is
  appended, images first. The pills of the previous rendering stay in the store, detached.
\<close>

definition renderAttachments :: "app_state \<Rightarrow> app_state" where
  "renderAttachments st =
     (let new = map imagePill (attachedFiles st) @
                map (\<lambda>a. documentPill (docObjects st ! a)) (attachedDocs st)
      in if new = [] then st\<lparr>container := [], containerHidden := True\<rparr>
         else st\<lparr>pills := pills st @ new,
                 container := [length (pills st) ..< length (pills st) + length new],
                 containerHidden := False\<rparr>)"

text \<open>\<open>document.getElementById\<close>: the first pill of the document with that id.\<close>

definition getElementById :: "app_state \<Rightarrow> string \<Rightarrow> nat option" where
  "getElementById st i = find (\<lambda>p. pill_id (pills st ! p) = i) (container st)"

text \<open>\<open>Math.max(0, Math.min(100, percentage))\<close>\<close>

definition shownWidth :: "rat \<Rightarrow> rat" where
  "shownWidth percentage = max 0 (min 100 percentage)"

text \<open>
  The closure \<open>updateProgress\<close> of one iteration: \<open>pl\<close> is the pill found when the
  document was created, \<open>fid\<close> the iteration's file id. Without the three elements
  (no pill, or an image pill) the call changes nothing on the page.
\<close>

definition updateProgress ::
  "nat option \<Rightarrow> string \<Rightarrow> string \<Rightarrow> rat option \<Rightarrow> app_state \<Rightarrow> app_state" where
  "updateProgress pl fid status percentage st =
     (let st1 = st\<lparr>progressCalls := progressCalls st @ [(fid, status, percentage)]\<rparr>
      in case pl of
           None \<Rightarrow> st1
         | Some p \<Rightarrow>
             if \<not> docPill (pills st ! p) then st1
             else (case percentage of
                     None \<Rightarrow> st1\<lparr>pills := (pills st)[p := (pills st ! p)
                                \<lparr>fileNameText := status, barHidden := True, barWidth := 0\<rparr>]\<rparr>
                   | Some x \<Rightarrow> st1\<lparr>pills := (pills st)[p := (pills st ! p)
                                \<lparr>fileNameText := status, barHidden := False,
                                 barWidth := shownWidth x\<rparr>]\<rparr>))"

text \<open>\<open>pill?.classList.add/remove\<close>\<close>

definition setProcessing :: "nat option \<Rightarrow> bool \<Rightarrow> app_state \<Rightarrow> app_state" where
  "setProcessing pl b st =
     (case pl of None \<Rightarrow> st
      | Some p \<Rightarrow> st\<lparr>pills := (pills st)[p := (pills st ! p)\<lparr>processing := b\<rparr>]\<rparr>)"

definition addErrorClass :: "nat option \<Rightarrow> app_state \<Rightarrow> app_state" where
  "addErrorClass pl st =
     (case pl of None \<Rightarrow> st
      | Some p \<Rightarrow> st\<lparr>pills := (pills st)[p := (pills st ! p)\<lparr>errorClass := True\<rparr>]\<rparr>)"

definition toggleChatForm :: "bool \<Rightarrow> app_state \<Rightarrow> app_state" where
  "toggleChatForm enabled st = st\<lparr>formEnabled := enabled\<rparr>"

section \<open>Removal and the other handlers that run between suspension points\<close>

definition isProcessing :: "app_state \<Rightarrow> string \<Rightarrow> bool" where
  "isProcessing st i =
     (case getElementById st i of None \<Rightarrow> False | Some p \<Rightarrow> processing (pills st ! p))"

text \<open>\<open>docToCancel?.abortController?.abort()\<close>\<close>

definition abortDoc :: "string \<Rightarrow> app_state \<Rightarrow> app_state" where
  "abortDoc i st =
     (case find (\<lambda>a. doc_id (docObjects st ! a) = i) (attachedDocs st) of
        None \<Rightarrow> st
      | Some a \<Rightarrow>
          (case abortController (docObjects st ! a) of
             None \<Rightarrow> st
           | Some _ \<Rightarrow> st\<lparr>docObjects := (docObjects st)[a := (docObjects st ! a)
                           \<lparr>abortController := Some True\<rparr>]\<rparr>))"

definition filterAttachments :: "string \<Rightarrow> app_state \<Rightarrow> app_state" where
  "filterAttachments i st =
     st\<lparr>attachedFiles := filter (\<lambda>f. file_id f \<noteq> i) (attachedFiles st),
        attachedDocs := filter (\<lambda>a. doc_id (docObjects st ! a) \<noteq> i) (attachedDocs st)\<rparr>"

text \<open>
  \<open>removeAttachment\<close>; \<open>answer\<close> is what \<open>confirm(...)\<close> returns, asked only when the
  pill is not processing.
\<close>

definition removeAttachment :: "string \<Rightarrow> bool \<Rightarrow> app_state \<Rightarrow> app_state" where
  "removeAttachment i answer st =
     (if isProcessing st i \<or> answer
      then renderAttachments (filterAttachments i (abortDoc i st))
      else st)"

text \<open>
  The \<open>onload\<close> callback of the \<open>k\<close>-th pending reader, with the data URL it read.
\<close>

definition readerOnload :: "nat \<Rightarrow> string \<Rightarrow> app_state \<Rightarrow> app_state" where
  "readerOnload k url st =
     (if k < length (pendingReaders st)
      then (case pendingReaders st ! k of (fid, nm, ty) \<Rightarrow>
              renderAttachments (st\<lparr>
                pendingReaders := take k (pendingReaders st) @ drop (Suc k) (pendingReaders st),
                attachedFiles := attachedFiles st @
                  [\<lparr>file_id = fid, file_name = nm,
                    base64 = (case splitComma url of _ # b # _ \<Rightarrow> Some b | _ \<Rightarrow> None),
                    mimeType = ty, sourceUrl = url\<rparr>]\<rparr>))
      else st)"

text \<open>
  \<open>handleNewChat\<close>, as far as the attachments go (the chat history is not modelled).
\<close>

definition handleNewChat :: "app_state \<Rightarrow> app_state" where
  "handleNewChat st = renderAttachments (st\<lparr>attachedFiles := [], attachedDocs := []\<rparr>)"

text \<open>
  What may run while an \<open>async\<close> handler is suspended at an \<open>await\<close>: a click on a
  pill's remove button, a reader finishing, a click on "new chat".
\<close>

datatype env_event =
    RemoveClick string bool
  | ImageLoaded nat string
  | NewChatClick

fun handleEvent :: "env_event \<Rightarrow> app_state \<Rightarrow> app_state" where
  "handleEvent (RemoveClick i answer) st = removeAttachment i answer st"
| "handleEvent (ImageLoaded k url) st = readerOnload k url st"
| "handleEvent NewChatClick st = handleNewChat st"

fun runEvents :: "env_event list \<Rightarrow> app_state \<Rightarrow> app_state" where
  "runEvents [] st = st"
| "runEvents (e # es) st = runEvents es (handleEvent e st)"

section \<open>The file-selection handler\<close>

text \<open>
  An awaited promise either resolves or rejects; the handler only tells an error named
  \<open>AbortError\<close> from any other. While the handler is suspended other handlers run:
  an awaited operation is given by the events handled during the suspension and by how
  the promise settles.
\<close>

datatype err = AbortError | OtherError

type_synonym 'a awaited = "env_event list \<times> (err + 'a)"

text \<open>One page of a parsed PDF: \<open>pdf.getPage(i)\<close>, then \<open>page.getTextContent\<close>
  with the \<open>str\<close> of each item.\<close>

datatype pdf_page = Page "unit awaited" "string list awaited"

text \<open>
  A \<open>File\<close> of the selection with what the environment does for it: the value
  \<open>Date.now()\<close> returns in its iteration, and how \<open>file.text()\<close>,
  \<open>file.arrayBuffer()\<close> and \<open>pdfjsLib.getDocument(...).promise\<close> settle. The PDF
  parser is outside the repository; \<open>pdf.numPages\<close> is the number of pages given.
\<close>

record selected_file =
  sf_name :: string
  sf_type :: string
  sf_now :: int
  sf_text :: "string awaited"
  sf_arrayBuffer :: "unit awaited"
  sf_getDocument :: "pdf_page list awaited"

definition await :: "'a awaited \<Rightarrow> app_state \<Rightarrow> app_state \<times> (err + 'a)" where
  "await p st = (runEvents (fst p) st, snd p)"

definition pageStatus :: "nat \<Rightarrow> nat \<Rightarrow> string" where
  "pageStatus i n = ''Extracting text (Page '' @ decimal i @ '' of '' @ decimal n @ '')...''"

definition pagePercentage :: "nat \<Rightarrow> nat \<Rightarrow> rat" where
  "pagePercentage i n = 15 + (of_nat i / of_nat n) * 70"

definition paragraphBreak :: string where
  "paragraphBreak = [CHR 0x0A, CHR 0x0A]"

text \<open>
  The loop \<open>for (let i = 1; i <= pdf.numPages; i++)\<close>: \<open>n\<close> is \<open>pdf.numPages\<close>,
  the list holds the pages from \<open>i\<close> on, \<open>text\<close> is \<open>textContent\<close> so far. A
  rejected promise leaves the loop with the error.
\<close>

fun pageLoop ::
  "nat option \<Rightarrow> string \<Rightarrow> nat \<Rightarrow> nat \<Rightarrow> pdf_page list \<Rightarrow> string \<Rightarrow> app_state
     \<Rightarrow> app_state \<times> (err + string)" where
  "pageLoop pl fid n i [] text st = (st, Inr text)"
| "pageLoop pl fid n i (Page gp gt # pgs) text st =
     (case await gp (updateProgress pl fid (pageStatus i n) (Some (pagePercentage i n)) st) of
        (st1, Inl e) \<Rightarrow> (st1, Inl e)
      | (st1, Inr _) \<Rightarrow>
          (case await gt st1 of
             (st2, Inl e) \<Rightarrow> (st2, Inl e)
           | (st2, Inr items) \<Rightarrow>
               pageLoop pl fid n (Suc i) pgs (text @ join '' '' items @ paragraphBreak) st2))"

text \<open>
  The \<open>try\<close> block up to the end of the extraction: the state reached and either the
  error thrown or the local \<open>textContent\<close>.
\<close>

definition tryBody ::
  "nat option \<Rightarrow> string \<Rightarrow> selected_file \<Rightarrow> app_state \<Rightarrow> app_state \<times> (err + string)" where
  "tryBody pl fid f st =
     (let st0 = setProcessing pl True st in
      if sf_type f = ''text/plain''
      then await (sf_text f) (updateProgress pl fid ''Reading document...'' (Some 25) st0)
      else if sf_type f = ''application/pdf''
      then (case await (sf_arrayBuffer f)
                   (updateProgress pl fid ''Reading document...'' (Some 5) st0) of
              (st1, Inl e) \<Rightarrow> (st1, Inl e)
            | (st1, Inr _) \<Rightarrow>
                (case await (sf_getDocument f)
                        (updateProgress pl fid ''Parsing PDF...'' (Some 15) st1) of
                   (st2, Inl e) \<Rightarrow> (st2, Inl e)
                 | (st2, Inr pages) \<Rightarrow> pageLoop pl fid (length pages) 1 pages [] st2))
      else (st0, Inr []))"

definition setTextContent :: "nat \<Rightarrow> string \<Rightarrow> app_state \<Rightarrow> app_state" where
  "setTextContent a t st =
     st\<lparr>docObjects := (docObjects st)[a := (docObjects st ! a)\<lparr>textContent := t\<rparr>]\<rparr>"

text \<open>
  \<open>Return\<close> is the \<open>return\<close> inside the loop, which leaves the whole handler.
\<close>

datatype flow = Continue | Return

text \<open>
  The rest of the \<open>try\<close> statement for the document object \<open>a\<close>: the two statements
  after the extraction, the \<open>catch\<close> clause, and \<open>finally\<close>.
\<close>

definition finishDocument ::
  "nat \<Rightarrow> nat option \<Rightarrow> string \<Rightarrow> string \<Rightarrow> err + string \<Rightarrow> app_state
     \<Rightarrow> app_state \<times> flow" where
  "finishDocument a pl fid nm r st =
     (case r of
        Inr t \<Rightarrow>
          (setProcessing pl False (updateProgress pl fid nm None (setTextContent a t st)),
           Continue)
      | Inl AbortError \<Rightarrow> (setProcessing pl False st, Return)
      | Inl OtherError \<Rightarrow>
          (setProcessing pl False
             (updateProgress pl fid ''Error: Could not read file.'' None
                (addErrorClass pl
                   (st\<lparr>attachedDocs :=
                         filter (\<lambda>b. doc_id (docObjects st ! b) \<noteq> fid) (attachedDocs st)\<rparr>))),
           Continue))"

definition newDocument :: "string \<Rightarrow> string \<Rightarrow> AttachedDocument" where
  "newDocument fid nm = \<lparr>doc_id = fid, doc_name = nm, textContent = [], summary = None,
     abortController = Some False\<rparr>"

text \<open>The state in which a document's pill is looked up: pushed and rendered.\<close>

definition pushDocument :: "string \<Rightarrow> string \<Rightarrow> app_state \<Rightarrow> app_state" where
  "pushDocument fid nm st =
     renderAttachments (st\<lparr>docObjects := docObjects st @ [newDocument fid nm],
                           attachedDocs := attachedDocs st @ [length (docObjects st)]\<rparr>)"

text \<open>One iteration of \<open>for (const file of files)\<close>.\<close>

definition processFile :: "selected_file \<Rightarrow> app_state \<Rightarrow> app_state \<times> flow" where
  "processFile f st =
     (let fid = fileId (sf_name f) (sf_now f) in
      if startsWith ''image/'' (sf_type f)
      then (st\<lparr>pendingReaders := pendingReaders st @ [(fid, sf_name f, sf_type f)]\<rparr>, Continue)
      else if sf_type f = ''text/plain'' \<or> sf_type f = ''application/pdf''
      then (let st1 = pushDocument fid (sf_name f) st;
                pl = getElementById st1 fid
            in case tryBody pl fid f st1 of
                 (st2, r) \<Rightarrow> finishDocument (length (docObjects st)) pl fid (sf_name f) r st2)
      else (st, Continue))"


fun processFiles :: "selected_file list \<Rightarrow> app_state \<Rightarrow> app_state \<times> flow" where
  "processFiles [] st = (st, Continue)"
| "processFiles (f # fs) st =
     (case processFile f st of
        (st1, Return) \<Rightarrow> (st1, Return)
      | (st1, Continue) \<Rightarrow> processFiles fs st1)"

text \<open>\<open>handleFileSelected\<close>; \<open>None\<close> is \<open>target.files\<close> being null.\<close>

definition handleFileSelected :: "selected_file list option \<Rightarrow> app_state \<Rightarrow> app_state" where
  "handleFileSelected files st =
     (case files of
        None \<Rightarrow> st
      | Some fs \<Rightarrow>
          (case processFiles fs (toggleChatForm False st) of
             (st1, Return) \<Rightarrow> st1
           | (st1, Continue) \<Rightarrow> toggleChatForm True (st1\<lparr>fileInputValue := []\<rparr>)))"

section \<open>Sending\<close>

datatype part = InlineData string "string option" | TextPart string

datatype submit_result = NothingToSend | ChatNotInitialized | Sent "part list"

definition documentSeparator :: string where
  "documentSeparator = paragraphBreak @ ''---'' @ paragraphBreak"

definition instructionLine :: string where
  "instructionLine = ''Based on the document(s) provided, please respond to the following: ''"

definition renderDocument :: "AttachedDocument \<Rightarrow> string" where
  "renderDocument d =
     ''DOCUMENT: '' @ [CHR 0x22] @ doc_name d @ [CHR 0x22] @ paragraphBreak @ textContent d"

definition promptText :: "AttachedDocument list \<Rightarrow> string \<Rightarrow> string" where
  "promptText docs userInput =
     (if length docs > 0
      then join documentSeparator (map renderDocument docs) @ documentSeparator @
           instructionLine @ userInput
      else userInput)"

definition messageParts :: "app_state \<Rightarrow> string \<Rightarrow> part list" where
  "messageParts st userInput =
     map (\<lambda>f. InlineData (mimeType f) (base64 f)) (attachedFiles st) @
     (let pt = promptText (map (\<lambda>a. docObjects st ! a) (attachedDocs st)) userInput
      in if pt \<noteq> [] then [TextPart pt] else [])"

text \<open>
  The state in which the parts are composed: the form is disabled, the input emptied, and
  \<open>during1\<close> are the events handled while \<open>addMessage\<close> is awaited.
\<close>

definition composing :: "env_event list \<Rightarrow> app_state \<Rightarrow> app_state" where
  "composing during1 st = runEvents during1 ((toggleChatForm False st)\<lparr>chatInputValue := []\<rparr>)"

text \<open>
  \<open>handleChatFormSubmit\<close> with \<open>chat\<close> telling whether the chat session exists;
  \<open>during2\<close> are the events handled from the clearing of the registry to the end of
  the answer. The result is the list passed to \<open>chat.sendMessageStream\<close>. The chat
  history and the bubbles are not modelled.
\<close>

definition handleChatFormSubmit ::
  "bool \<Rightarrow> env_event list \<Rightarrow> env_event list \<Rightarrow> app_state \<Rightarrow> submit_result \<times> app_state" where
  "handleChatFormSubmit chat during1 during2 st =
     (let userInput = trim (chatInputValue st) in
      if userInput = [] \<and> length (attachedFiles st) + length (attachedDocs st) = 0
      then (NothingToSend, st)
      else if \<not> chat then (ChatNotInitialized, st)
      else (let st1 = composing during1 st;
                parts = messageParts st1 userInput;
                st2 = renderAttachments (st1\<lparr>attachedFiles := [], attachedDocs := []\<rparr>)
            in (Sent parts, toggleChatForm True (runEvents during2 st2))))"

section \<open>What a file's own script determines\<close>

text \<open>
  The outcome of an extraction and the progress calls it makes depend on the file alone,
  not on the state or on the events in between. These functions read them off the file.
\<close>

fun pagesOutcome :: "pdf_page list \<Rightarrow> string \<Rightarrow> err + string" where
  "pagesOutcome [] text = Inr text"
| "pagesOutcome (Page gp gt # pgs) text =
     (case snd gp of
        Inl e \<Rightarrow> Inl e
      | Inr _ \<Rightarrow>
          (case snd gt of
             Inl e \<Rightarrow> Inl e
           | Inr items \<Rightarrow> pagesOutcome pgs (text @ join '' '' items @ paragraphBreak)))"

definition extractOutcome :: "selected_file \<Rightarrow> err + string" where
  "extractOutcome f =
     (if sf_type f = ''text/plain'' then snd (sf_text f)
      else if sf_type f = ''application/pdf''
      then (case snd (sf_arrayBuffer f) of
              Inl e \<Rightarrow> Inl e
            | Inr _ \<Rightarrow>
                (case snd (sf_getDocument f) of
                   Inl e \<Rightarrow> Inl e
                 | Inr pages \<Rightarrow> pagesOutcome pages []))
      else Inr [])"

text \<open>The \<open>str\<close> items of a page whose text content was read.\<close>

fun pageItems :: "pdf_page \<Rightarrow> string list" where
  "pageItems (Page gp gt) = (case snd gt of Inr items \<Rightarrow> items | Inl e \<Rightarrow> [])"

fun pagesCalls ::
  "string \<Rightarrow> nat \<Rightarrow> nat \<Rightarrow> pdf_page list \<Rightarrow> (string \<times> string \<times> rat option) list" where
  "pagesCalls fid n i [] = []"
| "pagesCalls fid n i (Page gp gt # pgs) =
     (fid, pageStatus i n, Some (pagePercentage i n)) #
     (case snd gp of
        Inl e \<Rightarrow> []
      | Inr _ \<Rightarrow> (case snd gt of Inl e \<Rightarrow> [] | Inr _ \<Rightarrow> pagesCalls fid n (Suc i) pgs))"

definition extractCalls :: "string \<Rightarrow> selected_file \<Rightarrow> (string \<times> string \<times> rat option) list" where
  "extractCalls fid f =
     (if sf_type f = ''text/plain'' then [(fid, ''Reading document...'', Some 25)]
      else if sf_type f = ''application/pdf''
      then (fid, ''Reading document...'', Some 5) #
           (case snd (sf_arrayBuffer f) of
              Inl e \<Rightarrow> []
            | Inr _ \<Rightarrow>
                (fid, ''Parsing PDF...'', Some 15) #
                (case snd (sf_getDocument f) of
                   Inl e \<Rightarrow> []
                 | Inr pages \<Rightarrow> pagesCalls fid (length pages) 1 pages))
      else [])"

definition isDocumentFile :: "selected_file \<Rightarrow> bool" where
  "isDocumentFile f =
     (\<not> startsWith ''image/'' (sf_type f) \<and>
      (sf_type f = ''text/plain'' \<or> sf_type f = ''application/pdf''))"

text \<open>The file is a document whose extraction ends in an \<open>AbortError\<close>.\<close>

definition aborts :: "selected_file \<Rightarrow> bool" where
  "aborts f = (isDocumentFile f \<and> extractOutcome f = Inl AbortError)"

text \<open>All progress calls of one iteration, the closing one included.\<close>

definition fileCalls :: "selected_file \<Rightarrow> (string \<times> string \<times> rat option) list" where
  "fileCalls f =
     (let fid = fileId (sf_name f) (sf_now f) in
      if \<not> isDocumentFile f then []
      else extractCalls fid f @
           (case extractOutcome f of
              Inr t \<Rightarrow> [(fid, sf_name f, None)]
            | Inl AbortError \<Rightarrow> []
            | Inl OtherError \<Rightarrow> [(fid, ''Error: Could not read file.'', None)]))"

text \<open>
  The files of a batch that the loop reaches: those up to and including the first
  document whose extraction ends in an \<open>AbortError\<close>.
\<close>

fun untilAbort :: "selected_file list \<Rightarrow> selected_file list" where
  "untilAbort [] = []"
| "untilAbort (f # fs) = (if aborts f then [f] else f # untilAbort fs)"

text \<open>
  The id of the document object that a document file's iteration creates and the text it
  leaves in it: the extracted text, or nothing when the extraction fails or is aborted.
\<close>

definition documentOf :: "selected_file \<Rightarrow> string \<times> string" where
  "documentOf f =
     (fileId (sf_name f) (sf_now f), case extractOutcome f of Inr t \<Rightarrow> t | Inl e \<Rightarrow> [])"

section \<open>States of the page and of the registry\<close>

text \<open>The state of the page when it is loaded: nothing attached, nothing rendered.\<close>

definition initialState :: app_state where
  "initialState = \<lparr>attachedFiles = [], attachedDocs = [], docObjects = [], pills = [],
     container = [], containerHidden = True, formEnabled = True, fileInputValue = [],
     chatInputValue = [], pendingReaders = [], progressCalls = []\<rparr>"

text \<open>What a snapshot of the registry shows: the images, then the documents' contents.\<close>

definition registryView :: "app_state \<Rightarrow> AttachedFile list \<times> AttachedDocument list" where
  "registryView st = (attachedFiles st, map (\<lambda>a. docObjects st ! a) (attachedDocs st))"

text \<open>
  What no handler running between suspension points changes: the form, the file input,
  the chat input, the progress calls, and every field of every document object other than
  its controller.
\<close>

definition eventFrame ::
  "app_state \<Rightarrow> bool \<times> string \<times> string \<times> (string \<times> string \<times> rat option) list \<times>
     (string \<times> string \<times> string \<times> string option) list" where
  "eventFrame st = (formEnabled st, fileInputValue st, chatInputValue st, progressCalls st,
     map (\<lambda>d. (doc_id d, doc_name d, textContent d, summary d)) (docObjects st))"

text \<open>Every reference of the registry points into the store.\<close>

definition registryInStore :: "app_state \<Rightarrow> bool" where
  "registryInStore st = (\<forall>b\<in>set (attachedDocs st). b < length (docObjects st))"

text \<open>
  Every document of the registry is in the store and has a controller.
\<close>

definition handlesPresent :: "app_state \<Rightarrow> bool" where
  "handlesPresent st =
     (\<forall>a\<in>set (attachedDocs st).
        a < length (docObjects st) \<and> abortController (docObjects st ! a) \<noteq> None)"

text \<open>
  The document object \<open>a\<close>, whose id is \<open>fid\<close>, has been removed: the registry holds
  no document with that id (so it does not hold \<open>a\<close>).
\<close>

definition removedDocument :: "nat \<Rightarrow> string \<Rightarrow> app_state \<Rightarrow> bool" where
  "removedDocument a fid st =
     (a < length (docObjects st) \<and> doc_id (docObjects st ! a) = fid \<and>
      (\<forall>b\<in>set (attachedDocs st). b < length (docObjects st) \<and> doc_id (docObjects st ! b) \<noteq> fid))"



section \<open>Example inputs\<close>

text \<open>The page after files have been picked: the file input holds a path.\<close>

definition picked :: app_state where
  "picked = initialState\<lparr>fileInputValue := ''C:'' @ [CHR 0x5C] @ ''fakepath'' @ [CHR 0x5C] @ ''slides.pdf''\<rparr>"

text \<open>A PDF of three pages, the last one without text, and a text file.\<close>

definition notesPdf :: selected_file where
  "notesPdf = \<lparr>sf_name = ''notes.pdf'', sf_type = ''application/pdf'', sf_now = 1000,
     sf_text = ([], Inr []), sf_arrayBuffer = ([], Inr ()),
     sf_getDocument = ([], Inr [Page ([], Inr ()) ([], Inr [''Heat'', ''rises.'']),
                               Page ([], Inr ()) ([], Inr [''Cold'', ''air'', ''sinks.'']),
                               Page ([], Inr ()) ([], Inr [])])\<rparr>"

definition helloTxt :: selected_file where
  "helloTxt = \<lparr>sf_name = ''hello.txt'', sf_type = ''text/plain'', sf_now = 1003,
     sf_text = ([], Inr ''hello''), sf_arrayBuffer = ([], Inr ()),
     sf_getDocument = ([], Inl OtherError)\<rparr>"

text \<open>A PDF whose remove button is clicked while the parser loads it; the parser then
  rejects with an \<open>AbortError\<close>.\<close>

definition cancelledPdf :: selected_file where
  "cancelledPdf = \<lparr>sf_name = ''slides.pdf'', sf_type = ''application/pdf'', sf_now = 1001,
     sf_text = ([], Inr []), sf_arrayBuffer = ([], Inr ()),
     sf_getDocument = ([RemoveClick ''slides.pdf-1001'' False], Inl AbortError)\<rparr>"




text \<open>A document being extracted, and the same document once its pill is no longer
  processing.\<close>

definition extracting :: app_state where
  "extracting = setProcessing (Some 0) True (pushDocument ''a.pdf-7'' ''a.pdf'' initialState)"


text \<open>Two image files with one name, selected together; the loop does not suspend
  between them, so the clock reads the same.\<close>

definition sameNameImage :: selected_file where
  "sameNameImage = \<lparr>sf_name = ''a.png'', sf_type = ''image/png'', sf_now = 1000,
     sf_text = ([], Inr []), sf_arrayBuffer = ([], Inr ()), sf_getDocument = ([], Inl OtherError)\<rparr>"

definition twoImagesLoaded :: app_state where
  "twoImagesLoaded =
     runEvents [ImageLoaded 0 ''data:image/png;base64,AAAA'', ImageLoaded 0 ''data:image/png;base64,BBBB'']
       (handleFileSelected (Some [sameNameImage, sameNameImage]) initialState)"

text \<open>An image and a text document attached, and a question typed.\<close>

definition readyToSend :: app_state where
  "readyToSend =
     (runEvents [ImageLoaded 0 ''data:image/png;base64,AAAA'']
        (handleFileSelected (Some [sameNameImage, helloTxt]) initialState))
     \<lparr>chatInputValue := ''  Why?  ''\<rparr>"

text \<open>The registry after a text file has been read.\<close>

definition oneDocument :: app_state where
  "oneDocument = handleFileSelected (Some [helloTxt]) picked"




section \<open>Attachment identifiers\<close>

lemma digitChar_code: "d < 10 \<Longrightarrow> of_char (digitChar d) = (48::nat) + d"
proof -
  assume "d < 10"
  then have "d \<in> {0,1,2,3,4,5,6,7,8,9}" by auto
  then show ?thesis by (auto simp: digitChar_def)
qed

lemma digitChar_inj:
  assumes "a < 10" and "b < 10" and "digitChar a = digitChar b"
  shows "a = b"
proof -
  from assms(3) have "(of_char (digitChar a) :: nat) = of_char (digitChar b)"
    by (rule arg_cong)
  then have "(48::nat) + a = 48 + b"
    unfolding digitChar_code [OF assms(1)] digitChar_code [OF assms(2)] .
  then show ?thesis by simp
qed

lemma digitChar_not_minus:
  assumes "d < 10"
  shows "digitChar d \<noteq> CHR ''-''"
proof -
  from assms have "d \<in> {0,1,2,3,4,5,6,7,8,9}" by auto
  then show ?thesis by (auto simp: digitChar_def)
qed

lemma decimal_nonempty: "decimal n \<noteq> []"
  by (subst decimal.simps) simp

lemma decimal_no_minus: "CHR ''-'' \<notin> set (decimal n)"
proof (induction n rule: decimal.induct)
  case (1 n)
  show ?case
  proof (cases "n < 10")
    case True
    then show ?thesis
      using digitChar_not_minus [of n] by (subst decimal.simps) auto
  next
    case False
    then have "CHR ''-'' \<notin> set (decimal (n div 10))" using 1 by simp
    moreover have "digitChar (n mod 10) \<noteq> CHR ''-''" by (rule digitChar_not_minus) simp
    ultimately show ?thesis using False by (subst decimal.simps) auto
  qed
qed

lemma decimal_inj: "decimal m = decimal n \<Longrightarrow> m = n"
proof (induction m arbitrary: n rule: decimal.induct)
  case (1 m)
  show ?case
  proof (cases "m < 10")
    case m: True
    show ?thesis
    proof (cases "n < 10")
      case True
      with m 1(2) show ?thesis
        by (simp add: decimal.simps [of m] decimal.simps [of n] digitChar_inj)
    next
      case False
      with m 1(2) show ?thesis
        using decimal_nonempty [of "n div 10"]
        by (simp add: decimal.simps [of m] decimal.simps [of n])
    qed
  next
    case m: False
    show ?thesis
    proof (cases "n < 10")
      case True
      with m 1(2) show ?thesis
        using decimal_nonempty [of "m div 10"]
        by (simp add: decimal.simps [of m] decimal.simps [of n])
    next
      case False
      with m 1(2) have eq: "decimal (m div 10) = decimal (n div 10)"
        and dg: "digitChar (m mod 10) = digitChar (n mod 10)"
        by (simp_all add: decimal.simps [of m] decimal.simps [of n])
      from 1(1) [OF m eq] have "m div 10 = n div 10" .
      moreover from dg have "m mod 10 = n mod 10" by (simp add: digitChar_inj)
      ultimately show ?thesis by (metis div_mult_mod_eq)
    qed
  qed
qed

lemma split_at_last:
  "c \<notin> set xs \<Longrightarrow> c \<notin> set ys \<Longrightarrow> us @ c # xs = vs @ c # ys \<Longrightarrow> us = vs \<and> xs = ys"
proof (induction us arbitrary: vs)
  case Nil
  then show ?case by (cases vs) auto
next
  case (Cons u us)
  then show ?case by (cases vs) auto
qed

text \<open>
  Claim C9, as amended. An attachment id is the file name, a hyphen and the clock reading
  of the iteration that created it. Two ids are equal exactly when the names are equal and
  the clock readings (milliseconds, not negative) are equal: attachments that differ in
  name or in creation time have different ids, and nothing more is guaranteed.
\<close>

theorem fileId_injective:
  assumes "0 \<le> t1" and "0 \<le> t2"
  shows "(fileId n1 t1 = fileId n2 t2) = (n1 = n2 \<and> t1 = t2)"
proof
  assume "fileId n1 t1 = fileId n2 t2"
  with assms have "n1 @ CHR ''-'' # decimal (nat t1) = n2 @ CHR ''-'' # decimal (nat t2)"
    by (simp add: fileId_def showInt_def)
  then have "n1 = n2 \<and> decimal (nat t1) = decimal (nat t2)"
    using split_at_last [OF decimal_no_minus decimal_no_minus] by blast
  with assms show "n1 = n2 \<and> t1 = t2" by (auto dest: decimal_inj)
next
  assume "n1 = n2 \<and> t1 = t2"
  then show "fileId n1 t1 = fileId n2 t2" by simp
qed

theorem fileId_injective_witness:
  "(fileId ''a.png'' 1000 = fileId ''a.png'' 1001) = (''a.png'' = ''a.png'' \<and> (1000::int) = 1001)"
proof -
  have a: "(0::int) \<le> 1000" and b: "(0::int) \<le> 1001" by simp_all
  from fileId_injective [OF a b] show ?thesis .
qed

text \<open>
  Claim C9 as stated fails: two images of one name selected in one batch get the same id,
  and both are in the registry once their readers have finished.
\<close>

theorem same_name_same_id_counterexample:
  "map file_id (attachedFiles twoImagesLoaded) = [''a.png-1000'', ''a.png-1000''] \<and>
   \<not> distinct (map file_id (attachedFiles twoImagesLoaded))"
  by code_simp

section \<open>What the operations leave alone\<close>

lemma doc_id_update_controller:
  "doc_id (xs[a := (xs ! a)\<lparr>abortController := v\<rparr>] ! b) = doc_id (xs ! b)"
  by (cases "a = b"; cases "b < length xs") (simp_all add: list_update_beyond)

lemma doc_id_abortDoc [simp]: "doc_id (docObjects (abortDoc i st) ! b) = doc_id (docObjects st ! b)"
  by (simp add: abortDoc_def doc_id_update_controller split: option.splits)

lemma attached_abortDoc [simp]:
  "attachedDocs (abortDoc i st) = attachedDocs st" "attachedFiles (abortDoc i st) = attachedFiles st"
  by (auto simp: abortDoc_def split: option.splits)

lemma abortDoc_frame [simp]:
  "pills (abortDoc i st) = pills st"
  "container (abortDoc i st) = container st"
  "length (docObjects (abortDoc i st)) = length (docObjects st)"
  by (simp_all add: abortDoc_def split: option.splits)

lemma attached_renderAttachments [simp]:
  "attachedDocs (renderAttachments st) = attachedDocs st"
  "attachedFiles (renderAttachments st) = attachedFiles st"
  "docObjects (renderAttachments st) = docObjects st"
  by (auto simp: renderAttachments_def Let_def)

lemma renderAttachments_frame [simp]:
  "progressCalls (renderAttachments st) = progressCalls st"
  "formEnabled (renderAttachments st) = formEnabled st"
  "fileInputValue (renderAttachments st) = fileInputValue st"
  "chatInputValue (renderAttachments st) = chatInputValue st"
  "pendingReaders (renderAttachments st) = pendingReaders st"
  by (simp_all add: renderAttachments_def Let_def)

lemma renderAttachments_pills:
  "length (pills st) \<le> length (pills (renderAttachments st))"
  "p < length (pills st) \<Longrightarrow> pills (renderAttachments st) ! p = pills st ! p"
  by (simp_all add: renderAttachments_def Let_def nth_append)

lemma filterAttachments_fields [simp]:
  "attachedFiles (filterAttachments i st) = filter (\<lambda>f. file_id f \<noteq> i) (attachedFiles st)"
  "attachedDocs (filterAttachments i st) = filter (\<lambda>a. doc_id (docObjects st ! a) \<noteq> i) (attachedDocs st)"
  "docObjects (filterAttachments i st) = docObjects st"
  by (auto simp: filterAttachments_def)

lemma filterAttachments_frame [simp]:
  "pills (filterAttachments i st) = pills st"
  "container (filterAttachments i st) = container st"
  by (simp_all add: filterAttachments_def)




lemma map_update_same: "f y = f (xs ! a) \<Longrightarrow> map f (xs[a := y]) = map f xs"
  by (metis list_update_id map_update)

lemma eventFrame_renderAttachments [simp]: "eventFrame (renderAttachments st) = eventFrame st"
  by (simp add: eventFrame_def)

lemma eventFrame_abortDoc [simp]: "eventFrame (abortDoc i st) = eventFrame st"
  by (simp add: eventFrame_def abortDoc_def map_update_same split: option.splits)

lemma eventFrame_filterAttachments [simp]: "eventFrame (filterAttachments i st) = eventFrame st"
  by (simp add: eventFrame_def filterAttachments_def)

lemma eventFrame_handleEvent: "eventFrame (handleEvent e st) = eventFrame st"
proof (cases e)
  case (RemoveClick i answer)
  then show ?thesis by (simp add: removeAttachment_def)
next
  case (ImageLoaded k url)
  then show ?thesis
    by (simp add: readerOnload_def split: prod.splits) (simp add: eventFrame_def)
next
  case NewChatClick
  then show ?thesis by (simp add: handleNewChat_def) (simp add: eventFrame_def)
qed

lemma runEvents_preserves:
  assumes "\<And>e st. P st \<Longrightarrow> P (handleEvent e st)"
  shows "P st \<Longrightarrow> P (runEvents es st)"
  by (induction es arbitrary: st) (simp_all add: assms)

lemma eventFrame_runEvents: "eventFrame (runEvents es st) = eventFrame st"
  by (rule runEvents_preserves [where P = "\<lambda>s. eventFrame s = eventFrame st"])
     (simp_all add: eventFrame_handleEvent)

lemma runEvents_frame [simp]:
  "progressCalls (runEvents es st) = progressCalls st"
  "formEnabled (runEvents es st) = formEnabled st"
  "fileInputValue (runEvents es st) = fileInputValue st"
  "length (docObjects (runEvents es st)) = length (docObjects st)"
  using eventFrame_runEvents [of es st]
  by (auto simp: eventFrame_def dest: map_eq_imp_length_eq)

lemma runEvents_doc:
  assumes "b < length (docObjects st)"
  shows "doc_id (docObjects (runEvents es st) ! b) = doc_id (docObjects st ! b)"
    and "textContent (docObjects (runEvents es st) ! b) = textContent (docObjects st ! b)"
proof -
  let ?f = "\<lambda>d. (doc_id d, doc_name d, textContent d, summary d)"
  have m: "map ?f (docObjects (runEvents es st)) = map ?f (docObjects st)"
    using eventFrame_runEvents [of es st] by (simp add: eventFrame_def)
  have "?f (docObjects (runEvents es st) ! b) = map ?f (docObjects (runEvents es st)) ! b"
    using assms by simp
  also have "\<dots> = ?f (docObjects st ! b)"
    using assms by (simp add: m)
  finally show "doc_id (docObjects (runEvents es st) ! b) = doc_id (docObjects st ! b)"
    and "textContent (docObjects (runEvents es st) ! b) = textContent (docObjects st ! b)"
    by simp_all
qed

lemma runEvents_ids: "map doc_id (docObjects (runEvents es st)) = map doc_id (docObjects st)"
proof -
  let ?f = "\<lambda>d. (doc_id d, doc_name d, textContent d, summary d)"
  have "map ?f (docObjects (runEvents es st)) = map ?f (docObjects st)"
    using eventFrame_runEvents [of es st] by (simp add: eventFrame_def)
  then have "map fst (map ?f (docObjects (runEvents es st))) = map fst (map ?f (docObjects st))"
    by (rule arg_cong)
  then show ?thesis by (simp add: comp_def)
qed

lemma handleEvent_registry: "set (attachedDocs (handleEvent e st)) \<subseteq> set (attachedDocs st)"
  by (cases e) (auto simp: removeAttachment_def readerOnload_def handleNewChat_def split: prod.splits)

lemma handleEvent_doc:
  assumes "b < length (docObjects st)"
  shows "doc_id (docObjects (handleEvent e st) ! b) = doc_id (docObjects st ! b)"
    and "length (docObjects (handleEvent e st)) = length (docObjects st)"
  using runEvents_doc(1) [OF assms, of "[e]"] runEvents_frame(4) [of "[e]" st] by simp_all

lemma handleEvent_pills:
  "length (pills st) \<le> length (pills (handleEvent e st)) \<and>
   (\<forall>p<length (pills st). pills (handleEvent e st) ! p = pills st ! p)"
proof (cases e)
  case (RemoveClick i answer)
  show ?thesis
    using renderAttachments_pills [where st = "filterAttachments i (abortDoc i st)"]
    by (simp add: RemoveClick removeAttachment_def)
next
  case (ImageLoaded k url)
  show ?thesis
  proof (cases "k < length (pendingReaders st)")
    case True
    obtain fid nm ty where r: "pendingReaders st ! k = (fid, nm, ty)"
      by (cases "pendingReaders st ! k") auto
    let ?s = "st\<lparr>pendingReaders := take k (pendingReaders st) @ drop (Suc k) (pendingReaders st),
                attachedFiles := attachedFiles st @
                  [\<lparr>file_id = fid, file_name = nm,
                    base64 = (case splitComma url of _ # b # _ \<Rightarrow> Some b | _ \<Rightarrow> None),
                    mimeType = ty, sourceUrl = url\<rparr>]\<rparr>"
    show ?thesis
      using renderAttachments_pills [where st = ?s] True r
      by (simp add: ImageLoaded readerOnload_def)
  next
    case False
    then show ?thesis by (simp add: ImageLoaded readerOnload_def)
  qed
next
  case NewChatClick
  show ?thesis
    using renderAttachments_pills [where st = "st\<lparr>attachedFiles := [], attachedDocs := []\<rparr>"]
    by (simp add: NewChatClick handleNewChat_def)
qed

lemma updateProgress_frame [simp]:
  "attachedDocs (updateProgress pl fid s pc st) = attachedDocs st"
  "attachedFiles (updateProgress pl fid s pc st) = attachedFiles st"
  "docObjects (updateProgress pl fid s pc st) = docObjects st"
  "formEnabled (updateProgress pl fid s pc st) = formEnabled st"
  "fileInputValue (updateProgress pl fid s pc st) = fileInputValue st"
  "progressCalls (updateProgress pl fid s pc st) = progressCalls st @ [(fid, s, pc)]"
  "length (pills (updateProgress pl fid s pc st)) = length (pills st)"
  by (simp_all add: updateProgress_def Let_def split: option.splits)

lemma setProcessing_frame [simp]:
  "attachedDocs (setProcessing pl b st) = attachedDocs st"
  "attachedFiles (setProcessing pl b st) = attachedFiles st"
  "docObjects (setProcessing pl b st) = docObjects st"
  "formEnabled (setProcessing pl b st) = formEnabled st"
  "fileInputValue (setProcessing pl b st) = fileInputValue st"
  "progressCalls (setProcessing pl b st) = progressCalls st"
  "length (pills (setProcessing pl b st)) = length (pills st)"
  by (simp_all add: setProcessing_def split: option.splits)

lemma addErrorClass_frame [simp]:
  "attachedDocs (addErrorClass pl st) = attachedDocs st"
  "attachedFiles (addErrorClass pl st) = attachedFiles st"
  "docObjects (addErrorClass pl st) = docObjects st"
  "formEnabled (addErrorClass pl st) = formEnabled st"
  "fileInputValue (addErrorClass pl st) = fileInputValue st"
  "progressCalls (addErrorClass pl st) = progressCalls st"
  "length (pills (addErrorClass pl st)) = length (pills st)"
  by (simp_all add: addErrorClass_def split: option.splits)

lemma setTextContent_frame [simp]:
  "attachedDocs (setTextContent a t st) = attachedDocs st"
  "attachedFiles (setTextContent a t st) = attachedFiles st"
  "length (docObjects (setTextContent a t st)) = length (docObjects st)"
  "formEnabled (setTextContent a t st) = formEnabled st"
  "fileInputValue (setTextContent a t st) = fileInputValue st"
  "progressCalls (setTextContent a t st) = progressCalls st"
  "pills (setTextContent a t st) = pills st"
  by (simp_all add: setTextContent_def)

section \<open>The extraction of one file\<close>

text \<open>The outcome and the calls of the page loop.\<close>

lemma pageLoop_outcome:
  "snd (pageLoop pl fid n i pgs acc st) = pagesOutcome pgs acc"
proof (induction pgs arbitrary: i acc st)
  case Nil
  show ?case by simp
next
  case (Cons pg pgs)
  show ?case by (cases pg) (simp add: await_def Cons.IH split: sum.splits)
qed

lemma pageLoop_calls:
  "progressCalls (fst (pageLoop pl fid n i pgs acc st)) = progressCalls st @ pagesCalls fid n i pgs"
proof (induction pgs arbitrary: i acc st)
  case Nil
  show ?case by simp
next
  case (Cons pg pgs)
  show ?case by (cases pg) (simp add: await_def Cons.IH split: sum.splits)
qed

lemma pageLoop_preserves:
  assumes u: "\<And>st s pc. P st \<Longrightarrow> P (updateProgress pl fid s pc st)"
    and e: "\<And>es st. P st \<Longrightarrow> P (runEvents es st)"
  shows "P st \<Longrightarrow> P (fst (pageLoop pl fid n i pgs acc st))"
proof (induction pgs arbitrary: i acc st)
  case Nil
  then show ?case by simp
next
  case (Cons pg pgs)
  show ?case
  proof (cases pg)
    case (Page gp gt)
    have 1: "P (runEvents (fst gp) (updateProgress pl fid (pageStatus i n) (Some (pagePercentage i n)) st))"
      using Cons.prems by (intro e u)
    then have 2: "P (runEvents (fst gt) (runEvents (fst gp)
        (updateProgress pl fid (pageStatus i n) (Some (pagePercentage i n)) st)))"
      by (rule e)
    show ?thesis using 1 2 Cons.IH
      by (simp add: Page await_def split: sum.splits)
  qed
qed

lemma tryBody_outcome: "snd (tryBody pl fid f st) = extractOutcome f"
  by (simp add: tryBody_def extractOutcome_def await_def pageLoop_outcome Let_def
      split: sum.splits)

lemma tryBody_calls:
  "progressCalls (fst (tryBody pl fid f st)) = progressCalls st @ extractCalls fid f"
  by (simp add: tryBody_def extractCalls_def await_def pageLoop_calls Let_def
      split: sum.splits)

lemma tryBody_preserves:
  assumes u: "\<And>st s pc. P st \<Longrightarrow> P (updateProgress pl fid s pc st)"
    and e: "\<And>es st. P st \<Longrightarrow> P (runEvents es st)"
    and p: "\<And>st. P st \<Longrightarrow> P (setProcessing pl True st)"
  shows "P st \<Longrightarrow> P (fst (tryBody pl fid f st))"
proof -
  assume st: "P st"
  have l: "\<And>n i pgs acc st. P st \<Longrightarrow> P (fst (pageLoop pl fid n i pgs acc st))"
    using u e by (rule pageLoop_preserves)
  show ?thesis
    using st by (auto simp: tryBody_def await_def Let_def split: sum.splits intro!: l u e p)
qed

lemma tryBody_frame [simp]:
  "formEnabled (fst (tryBody pl fid f st)) = formEnabled st"
  "fileInputValue (fst (tryBody pl fid f st)) = fileInputValue st"
  "length (docObjects (fst (tryBody pl fid f st))) = length (docObjects st)"
proof -
  show "formEnabled (fst (tryBody pl fid f st)) = formEnabled st"
    by (rule tryBody_preserves [where P = "\<lambda>s. formEnabled s = formEnabled st"]) simp_all
  show "fileInputValue (fst (tryBody pl fid f st)) = fileInputValue st"
    by (rule tryBody_preserves [where P = "\<lambda>s. fileInputValue s = fileInputValue st"]) simp_all
  show "length (docObjects (fst (tryBody pl fid f st))) = length (docObjects st)"
    by (rule tryBody_preserves [where P = "\<lambda>s. length (docObjects s) = length (docObjects st)"])
       simp_all
qed

section \<open>One iteration and the loop\<close>

lemma pushDocument_frame [simp]:
  "progressCalls (pushDocument fid nm st) = progressCalls st"
  "formEnabled (pushDocument fid nm st) = formEnabled st"
  "fileInputValue (pushDocument fid nm st) = fileInputValue st"
  "attachedFiles (pushDocument fid nm st) = attachedFiles st"
  "attachedDocs (pushDocument fid nm st) = attachedDocs st @ [length (docObjects st)]"
  "docObjects (pushDocument fid nm st) = docObjects st @ [newDocument fid nm]"
  by (simp_all add: pushDocument_def)

lemma finishDocument_flow:
  "snd (finishDocument a pl fid nm r st) = (if r = Inl AbortError then Return else Continue)"
  by (simp add: finishDocument_def split: sum.splits err.splits)

lemma finishDocument_frame [simp]:
  "formEnabled (fst (finishDocument a pl fid nm r st)) = formEnabled st"
  "fileInputValue (fst (finishDocument a pl fid nm r st)) = fileInputValue st"
  "length (docObjects (fst (finishDocument a pl fid nm r st))) = length (docObjects st)"
  by (simp_all add: finishDocument_def split: sum.splits err.splits)

lemma finishDocument_calls:
  "progressCalls (fst (finishDocument a pl fid nm r st)) = progressCalls st @
     (case r of Inr t \<Rightarrow> [(fid, nm, None)] | Inl AbortError \<Rightarrow> []
      | Inl OtherError \<Rightarrow> [(fid, ''Error: Could not read file.'', None)])"
  by (simp add: finishDocument_def split: sum.splits err.splits)

lemma isDocumentFile_branch:
  "isDocumentFile f \<Longrightarrow>
     \<not> startsWith ''image/'' (sf_type f) \<and>
     (sf_type f = ''text/plain'' \<or> sf_type f = ''application/pdf'')"
  "\<not> isDocumentFile f \<Longrightarrow>
     startsWith ''image/'' (sf_type f) \<or>
     (sf_type f \<noteq> ''text/plain'' \<and> sf_type f \<noteq> ''application/pdf'')"
  by (auto simp: isDocumentFile_def)

lemma processFile_document:
  assumes "isDocumentFile f"
  shows "processFile f st =
     (let fid = fileId (sf_name f) (sf_now f);
          st1 = pushDocument fid (sf_name f) st;
          pl = getElementById st1 fid
      in finishDocument (length (docObjects st)) pl fid (sf_name f) (extractOutcome f)
           (fst (tryBody pl fid f st1)))"
  using isDocumentFile_branch(1) [OF assms]
  by (auto simp: processFile_def Let_def case_prod_beta tryBody_outcome)

lemma processFile_other:
  assumes "\<not> isDocumentFile f"
  shows "snd (processFile f st) = Continue"
    and "progressCalls (fst (processFile f st)) = progressCalls st"
    and "formEnabled (fst (processFile f st)) = formEnabled st"
    and "fileInputValue (fst (processFile f st)) = fileInputValue st"
    and "docObjects (fst (processFile f st)) = docObjects st"
  using isDocumentFile_branch(2) [OF assms] by (auto simp: processFile_def Let_def)

lemma processFile_flow: "snd (processFile f st) = (if aborts f then Return else Continue)"
proof (cases "isDocumentFile f")
  case True
  then show ?thesis
    by (simp add: processFile_document Let_def finishDocument_flow aborts_def)
next
  case False
  then show ?thesis by (simp add: processFile_other aborts_def)
qed

lemma processFile_calls:
  "progressCalls (fst (processFile f st)) = progressCalls st @ fileCalls f"
proof (cases "isDocumentFile f")
  case True
  then show ?thesis
    by (simp add: processFile_document Let_def finishDocument_calls tryBody_calls fileCalls_def)
next
  case False
  then show ?thesis by (simp add: processFile_other fileCalls_def Let_def)
qed

lemma processFile_frame [simp]:
  "formEnabled (fst (processFile f st)) = formEnabled st"
  "fileInputValue (fst (processFile f st)) = fileInputValue st"
  by (cases "isDocumentFile f"; simp add: processFile_document processFile_other Let_def)+

lemma processFile_ids:
  "map doc_id (docObjects (fst (processFile f st))) =
     map doc_id (docObjects st) @
     (if isDocumentFile f then [fileId (sf_name f) (sf_now f)] else [])"
proof (cases "isDocumentFile f")
  case True
  let ?fid = "fileId (sf_name f) (sf_now f)"
  let ?st1 = "pushDocument ?fid (sf_name f) st"
  let ?pl = "getElementById ?st1 ?fid"
  let ?ids = "map doc_id (docObjects st) @ [?fid]"
  have "map doc_id (docObjects (fst (tryBody ?pl ?fid f ?st1))) = ?ids"
    by (rule tryBody_preserves [where P = "\<lambda>s. map doc_id (docObjects s) = ?ids"])
       (simp_all add: runEvents_ids newDocument_def)
  then show ?thesis
    using True
    by (simp add: processFile_document Let_def finishDocument_def setTextContent_def
        map_update_same split: sum.splits err.splits)
next
  case False
  then show ?thesis by (simp add: processFile_other)
qed

lemma processFiles_frame [simp]:
  "formEnabled (fst (processFiles fs st)) = formEnabled st"
  "fileInputValue (fst (processFiles fs st)) = fileInputValue st"
proof (induction fs arbitrary: st)
  case Nil
  { case 1 show ?case by simp }
  { case 2 show ?case by simp }
next
  case (Cons f fs)
  { case 1
    have "formEnabled (fst (processFile f st)) = formEnabled st" by simp
    then show ?case using Cons.IH(1) [of "fst (processFile f st)"]
      by (cases "processFile f st") (auto split: flow.splits) }
  { case 2
    have "fileInputValue (fst (processFile f st)) = fileInputValue st" by simp
    then show ?case using Cons.IH(2) [of "fst (processFile f st)"]
      by (cases "processFile f st") (auto split: flow.splits) }
qed

lemma processFiles_abort:
  assumes "aborts f"
  shows "processFiles (pre @ f # rest) st = processFiles (pre @ [f]) st"
    and "snd (processFiles (pre @ f # rest) st) = Return"
proof (induction pre arbitrary: st)
  case Nil
  { case 1 show ?case using processFile_flow [of f st] assms
      by (cases "processFile f st") (auto split: flow.splits) }
  { case 2 show ?case using processFile_flow [of f st] assms
      by (cases "processFile f st") (auto split: flow.splits) }
next
  case (Cons g pre)
  { case 1 show ?case using Cons.IH(1)
      by (cases "processFile g st") (auto split: flow.splits) }
  { case 2 show ?case using Cons.IH(2)
      by (cases "processFile g st") (auto split: flow.splits) }
qed

lemma runEvents_texts:
  "map (\<lambda>d. (doc_id d, textContent d)) (docObjects (runEvents es st)) =
   map (\<lambda>d. (doc_id d, textContent d)) (docObjects st)"
proof -
  let ?f = "\<lambda>d. (doc_id d, doc_name d, textContent d, summary d)"
  have "map ?f (docObjects (runEvents es st)) = map ?f (docObjects st)"
    using eventFrame_runEvents [of es st] by (simp add: eventFrame_def)
  then have "map (\<lambda>(i, n, t, s). (i, t)) (map ?f (docObjects (runEvents es st))) =
      map (\<lambda>(i, n, t, s). (i, t)) (map ?f (docObjects st))"
    by (rule arg_cong)
  then show ?thesis by (simp add: comp_def)
qed

lemma processFile_texts:
  "map (\<lambda>d. (doc_id d, textContent d)) (docObjects (fst (processFile f st))) =
     map (\<lambda>d. (doc_id d, textContent d)) (docObjects st) @
     (if isDocumentFile f then [documentOf f] else [])"
proof (cases "isDocumentFile f")
  case True
  let ?g = "\<lambda>d. (doc_id d, textContent d)"
  let ?fid = "fileId (sf_name f) (sf_now f)"
  let ?st1 = "pushDocument ?fid (sf_name f) st"
  let ?pl = "getElementById ?st1 ?fid"
  let ?st2 = "fst (tryBody ?pl ?fid f ?st1)"
  let ?old = "map ?g (docObjects st)"
  let ?a = "length (docObjects st)"
  have pf: "processFile f st =
      finishDocument ?a ?pl ?fid (sf_name f) (extractOutcome f) ?st2"
    by (simp add: processFile_document [OF True] Let_def)
  have m: "map ?g (docObjects ?st2) = ?old @ [(?fid, [])]"
    by (rule tryBody_preserves [where P = "\<lambda>s. map ?g (docObjects s) = ?old @ [(?fid, [])]"])
       (simp_all add: runEvents_texts newDocument_def)
  have len: "length (docObjects ?st2) = Suc ?a"
    using arg_cong [OF m, of length] by simp
  have "?g (docObjects ?st2 ! ?a) = map ?g (docObjects ?st2) ! ?a"
    using len by simp
  also have "\<dots> = (?fid, [])" by (simp add: m nth_append)
  finally have own: "doc_id (docObjects ?st2 ! ?a) = ?fid" by simp
  show ?thesis
  proof (cases "extractOutcome f")
    case (Inr tx)
    have "docObjects (fst (processFile f st)) =
        (docObjects ?st2)[?a := (docObjects ?st2 ! ?a)\<lparr>textContent := tx\<rparr>]"
      by (simp add: pf Inr finishDocument_def setTextContent_def)
    then have "map ?g (docObjects (fst (processFile f st))) =
        (map ?g (docObjects ?st2))[length ?old := (?fid, tx)]"
      by (simp add: map_update own)
    also have "\<dots> = ?old @ [(?fid, tx)]" by (simp add: m list_update_append)
    finally show ?thesis using True by (simp add: documentOf_def Inr)
  next
    case (Inl e)
    have "docObjects (fst (processFile f st)) = docObjects ?st2"
      by (cases e) (simp_all add: pf Inl finishDocument_def)
    then show ?thesis using True m by (simp add: documentOf_def Inl)
  qed
next
  case False
  then show ?thesis by (simp add: processFile_other)
qed

lemma processFiles_reached:
  "progressCalls (fst (processFiles fs st)) =
     progressCalls st @ concat (map fileCalls (untilAbort fs)) \<and>
   map (\<lambda>d. (doc_id d, textContent d)) (docObjects (fst (processFiles fs st))) =
     map (\<lambda>d. (doc_id d, textContent d)) (docObjects st) @
     map documentOf (filter isDocumentFile (untilAbort fs))"
proof (induction fs arbitrary: st)
  case Nil
  show ?case by simp
next
  case (Cons f fs)
  obtain st1 fl where pf: "processFile f st = (st1, fl)" by (cases "processFile f st") auto
  have fl: "fl = (if aborts f then Return else Continue)"
    using processFile_flow [of f st] pf by simp
  have c: "progressCalls st1 = progressCalls st @ fileCalls f"
    using processFile_calls [of f st] pf by simp
  have t: "map (\<lambda>d. (doc_id d, textContent d)) (docObjects st1) =
     map (\<lambda>d. (doc_id d, textContent d)) (docObjects st) @
     (if isDocumentFile f then [documentOf f] else [])"
    using processFile_texts [of f st] pf by simp
  show ?case
  proof (cases "aborts f")
    case True
    then show ?thesis using c t by (simp add: pf fl)
  next
    case False
    then show ?thesis using c t Cons.IH [of st1] by (simp add: pf fl)
  qed
qed

lemma untilAbort_all: "\<forall>f\<in>set fs. \<not> aborts f \<Longrightarrow> untilAbort fs = fs"
  by (induction fs) simp_all

lemma handleFileSelected_reached:
  "progressCalls (handleFileSelected (Some fs) st) =
     progressCalls st @ concat (map fileCalls (untilAbort fs)) \<and>
   map (\<lambda>d. (doc_id d, textContent d)) (docObjects (handleFileSelected (Some fs) st)) =
     map (\<lambda>d. (doc_id d, textContent d)) (docObjects st) @
     map documentOf (filter isDocumentFile (untilAbort fs))"
proof -
  let ?st0 = "toggleChatForm False st"
  let ?st1 = "fst (processFiles fs ?st0)"
  have d: "progressCalls (handleFileSelected (Some fs) st) = progressCalls ?st1"
    "docObjects (handleFileSelected (Some fs) st) = docObjects ?st1"
    by (cases "processFiles fs ?st0"; simp add: handleFileSelected_def toggleChatForm_def
        split: flow.splits)+
  have s: "progressCalls ?st0 = progressCalls st" "docObjects ?st0 = docObjects st"
    by (simp_all add: toggleChatForm_def)
  show ?thesis
    using processFiles_reached [of fs ?st0] by (simp only: d s)
qed




section \<open>The progress of a PDF\<close>

lemma pages_resolved:
  "pagesOutcome pgs acc = Inr t \<Longrightarrow>
     t = acc @ concat (map (\<lambda>pg. join '' '' (pageItems pg) @ paragraphBreak) pgs) \<and>
     pagesCalls fid n i pgs =
       map (\<lambda>k. (fid, pageStatus k n, Some (pagePercentage k n))) [i..<i + length pgs]"
proof (induction pgs arbitrary: acc i)
  case Nil
  then show ?case by simp
next
  case (Cons pg pgs)
  show ?case
  proof (cases pg)
    case (Page gp gt)
    from Cons.prems Page obtain u items where gp: "snd gp = Inr u" and gt: "snd gt = Inr items"
      and rest: "pagesOutcome pgs (acc @ join '' '' items @ paragraphBreak) = Inr t"
      by (auto split: sum.splits)
    from Cons.IH [OF rest, of "Suc i"] show ?thesis
      by (simp add: Page gp gt upt_conv_Cons del: upt_Suc)
  qed
qed

lemma shownWidth_range: "0 \<le> shownWidth x \<and> shownWidth x \<le> 100"
  by (simp add: shownWidth_def)

lemma updateProgress_width:
  "p < length (pills st) \<Longrightarrow> docPill (pills st ! p) \<Longrightarrow>
     barWidth (pills (updateProgress (Some p) fid s (Some x) st) ! p) = shownWidth x \<and>
     \<not> barHidden (pills (updateProgress (Some p) fid s (Some x) st) ! p)"
  by (simp add: updateProgress_def)

text \<open>
  Claim C1. For a PDF whose extraction completes, with \<open>P\<close> pages: the calls of
  \<open>updateProgress\<close> are "Reading document..." at 5, "Parsing PDF..." at 15, for each
  \<open>i\<close> from 1 to \<open>P\<close> in order "Extracting text (Page i of P)..." at
  \<open>15 + (i / P) * 70\<close>, and last the file name with no percentage; the text stored in
  the document is, page after page, the page's items joined by single spaces followed by
  two line feeds; and a percentage is shown on a document pill as a width between 0 and
  100, the percentage cut off at these bounds. Whatever the other handlers do while the
  extraction is suspended makes no difference.
\<close>

theorem pdf_progress_sequence:
  assumes "sf_type f = ''application/pdf''"
    and "snd (sf_getDocument f) = Inr pages"
    and "extractOutcome f = Inr t"
  shows "progressCalls (fst (processFile f st)) = progressCalls st @
           [(fileId (sf_name f) (sf_now f), ''Reading document...'', Some 5),
            (fileId (sf_name f) (sf_now f), ''Parsing PDF...'', Some 15)] @
           map (\<lambda>i. (fileId (sf_name f) (sf_now f),
                     ''Extracting text (Page '' @ decimal i @ '' of '' @ decimal (length pages) @ '')...'',
                     Some (15 + (of_nat i / of_nat (length pages)) * 70)))
               [1..<Suc (length pages)] @
           [(fileId (sf_name f) (sf_now f), sf_name f, None)] \<and>
         t = concat (map (\<lambda>pg. join '' '' (pageItems pg) @ [CHR 0x0A, CHR 0x0A]) pages) \<and>
         textContent (docObjects (fst (processFile f st)) ! length (docObjects st)) = t \<and>
         (\<forall>p fid s x st'. p < length (pills st') \<and> docPill (pills st' ! p) \<longrightarrow>
            barWidth (pills (updateProgress (Some p) fid s (Some x) st') ! p) = max 0 (min 100 x) \<and>
            0 \<le> barWidth (pills (updateProgress (Some p) fid s (Some x) st') ! p) \<and>
            barWidth (pills (updateProgress (Some p) fid s (Some x) st') ! p) \<le> 100)"
proof -
  let ?fid = "fileId (sf_name f) (sf_now f)"
  have doc: "isDocumentFile f"
    using assms(1) by (simp add: isDocumentFile_def startsWith_def)
  from assms have po: "pagesOutcome pages [] = Inr t"
    by (auto simp: extractOutcome_def split: sum.splits)
  from assms have ab: "snd (sf_arrayBuffer f) = Inr ()"
    by (auto simp: extractOutcome_def split: sum.splits)
  note pr = pages_resolved [OF po, of ?fid "length pages" 1]
  have calls: "fileCalls f =
           [(?fid, ''Reading document...'', Some 5), (?fid, ''Parsing PDF...'', Some 15)] @
           map (\<lambda>i. (?fid, pageStatus i (length pages), Some (pagePercentage i (length pages))))
               [1..<Suc (length pages)] @
           [(?fid, sf_name f, None)]"
    using pr doc assms by (simp add: fileCalls_def extractCalls_def ab Let_def del: upt_Suc)
  have 1: "progressCalls (fst (processFile f st)) = progressCalls st @ fileCalls f"
    by (rule processFile_calls)
  have 2: "t = concat (map (\<lambda>pg. join '' '' (pageItems pg) @ [CHR 0x0A, CHR 0x0A]) pages)"
    using pr by (simp add: paragraphBreak_def)
  have 3: "textContent (docObjects (fst (processFile f st)) ! length (docObjects st)) = t"
    using assms(3) by (simp add: processFile_document [OF doc] Let_def finishDocument_def setTextContent_def)
  have 4: "\<forall>p fid s x st'. p < length (pills st') \<and> docPill (pills st' ! p) \<longrightarrow>
            barWidth (pills (updateProgress (Some p) fid s (Some x) st') ! p) = max 0 (min 100 x) \<and>
            0 \<le> barWidth (pills (updateProgress (Some p) fid s (Some x) st') ! p) \<and>
            barWidth (pills (updateProgress (Some p) fid s (Some x) st') ! p) \<le> 100"
    using shownWidth_range by (simp add: updateProgress_width shownWidth_def)
  have 5: "progressCalls (fst (processFile f st)) = progressCalls st @
           [(?fid, ''Reading document...'', Some 5), (?fid, ''Parsing PDF...'', Some 15)] @
           map (\<lambda>i. (?fid,
                     ''Extracting text (Page '' @ decimal i @ '' of '' @ decimal (length pages) @ '')...'',
                     Some (15 + (of_nat i / of_nat (length pages)) * 70)))
               [1..<Suc (length pages)] @
           [(?fid, sf_name f, None)]"
    by (simp only: 1 calls pageStatus_def pagePercentage_def)
  from 5 2 3 4 show ?thesis by (intro conjI)
qed

theorem pdf_progress_sequence_witness:
  "sf_type notesPdf = ''application/pdf'' \<and>
   progressCalls (fst (processFile notesPdf picked)) =
     [(''notes.pdf-1000'', ''Reading document...'', Some 5),
      (''notes.pdf-1000'', ''Parsing PDF...'', Some 15),
      (''notes.pdf-1000'', ''Extracting text (Page 1 of 3)...'', Some (115 / 3)),
      (''notes.pdf-1000'', ''Extracting text (Page 2 of 3)...'', Some (185 / 3)),
      (''notes.pdf-1000'', ''Extracting text (Page 3 of 3)...'', Some 85),
      (''notes.pdf-1000'', ''notes.pdf'', None)] \<and>
   textContent (docObjects (fst (processFile notesPdf picked)) ! length (docObjects picked)) =
     ''Heat rises.'' @ [CHR 0x0A, CHR 0x0A] @ ''Cold air sinks.'' @ [CHR 0x0A, CHR 0x0A] @
     [CHR 0x0A, CHR 0x0A] \<and>
   docPill (pills extracting ! 0) \<and>
   barWidth (pills (updateProgress (Some 0) ''a.pdf-7'' ''Parsing PDF...'' (Some 250) extracting) ! 0) =
     100"
proof -
  let ?pages = "[Page ([], Inr ()) ([], Inr [''Heat'', ''rises.'']),
           Page ([], Inr ()) ([], Inr [''Cold'', ''air'', ''sinks.'']),
           Page ([], Inr ()) ([], Inr [])]"
  let ?t = "''Heat rises.'' @ [CHR 0x0A, CHR 0x0A] @ ''Cold air sinks.'' @ [CHR 0x0A, CHR 0x0A] @
     [CHR 0x0A, CHR 0x0A]"
  have a: "sf_type notesPdf = ''application/pdf''" by code_simp
  have b: "snd (sf_getDocument notesPdf) = Inr ?pages" by code_simp
  have c: "extractOutcome notesPdf = Inr ?t" by code_simp
  note T = pdf_progress_sequence [OF a b c, of picked]
  have E: "progressCalls picked @
           [(fileId (sf_name notesPdf) (sf_now notesPdf), ''Reading document...'', Some 5),
            (fileId (sf_name notesPdf) (sf_now notesPdf), ''Parsing PDF...'', Some 15)] @
           map (\<lambda>i. (fileId (sf_name notesPdf) (sf_now notesPdf),
                     ''Extracting text (Page '' @ decimal i @ '' of '' @ decimal (length ?pages) @ '')...'',
                     Some (15 + (of_nat i / of_nat (length ?pages)) * 70)))
               [1..<Suc (length ?pages)] @
           [(fileId (sf_name notesPdf) (sf_now notesPdf), sf_name notesPdf, None)] =
     [(''notes.pdf-1000'', ''Reading document...'', Some 5),
      (''notes.pdf-1000'', ''Parsing PDF...'', Some 15),
      (''notes.pdf-1000'', ''Extracting text (Page 1 of 3)...'', Some (115 / 3)),
      (''notes.pdf-1000'', ''Extracting text (Page 2 of 3)...'', Some (185 / 3)),
      (''notes.pdf-1000'', ''Extracting text (Page 3 of 3)...'', Some 85),
      (''notes.pdf-1000'', ''notes.pdf'', None)]"
    by (simp add: upt_rec decimal.simps digitChar_def fileId_def showInt_def notesPdf_def
        picked_def initialState_def)
  have 1: "progressCalls (fst (processFile notesPdf picked)) =
     [(''notes.pdf-1000'', ''Reading document...'', Some 5),
      (''notes.pdf-1000'', ''Parsing PDF...'', Some 15),
      (''notes.pdf-1000'', ''Extracting text (Page 1 of 3)...'', Some (115 / 3)),
      (''notes.pdf-1000'', ''Extracting text (Page 2 of 3)...'', Some (185 / 3)),
      (''notes.pdf-1000'', ''Extracting text (Page 3 of 3)...'', Some 85),
      (''notes.pdf-1000'', ''notes.pdf'', None)]"
    by (rule trans [OF conjunct1 [OF T] E])
  have 2: "textContent (docObjects (fst (processFile notesPdf picked)) ! length (docObjects picked)) = ?t"
    by (rule conjunct1 [OF conjunct2 [OF conjunct2 [OF T]]])
  have p: "0 < length (pills extracting) \<and> docPill (pills extracting ! 0)" by code_simp
  from T have "0 < length (pills extracting) \<and> docPill (pills extracting ! 0) \<longrightarrow>
      barWidth (pills (updateProgress (Some 0) ''a.pdf-7'' ''Parsing PDF...'' (Some 250) extracting) ! 0) =
        max 0 (min 100 250)"
    by blast
  with p have 3: "barWidth (pills (updateProgress (Some 0) ''a.pdf-7'' ''Parsing PDF...'' (Some 250)
      extracting) ! 0) = 100"
    by simp
  from p have 4: "docPill (pills extracting ! 0)" by simp
  from a 1 2 4 3 show ?thesis by (intro conjI)
qed

section \<open>Composing the message\<close>

lemma documentSeparator_nonempty: "documentSeparator \<noteq> []"
  by (simp add: documentSeparator_def paragraphBreak_def)

text \<open>
  Claim C2. A send with an empty trimmed input and no attachment is rejected and changes
  nothing. Otherwise the parts passed to the chat are one inline part (MIME type and
  base64 data) per image of the registry, in order, followed by at most one text part:
  with documents in the registry, the documents in order, each as \<open>DOCUMENT: "name"\<close>,
  two line feeds and its text, joined by the separator, then the separator, the
  instruction line and the trimmed input; with no document, the trimmed input alone, and
  no text part at all when it is empty. The registry meant is the one read when the parts
  are composed, that is after the user's bubble has been added.
\<close>

theorem composed_message_parts:
  "(trim (chatInputValue st) = [] \<and> attachedFiles st = [] \<and> attachedDocs st = [] \<longrightarrow>
      handleChatFormSubmit chat during1 during2 st = (NothingToSend, st)) \<and>
   (\<not> (trim (chatInputValue st) = [] \<and> attachedFiles st = [] \<and> attachedDocs st = []) \<longrightarrow>
      fst (handleChatFormSubmit True during1 during2 st) =
        Sent (map (\<lambda>f. InlineData (mimeType f) (base64 f)) (attachedFiles (composing during1 st)) @
              (if attachedDocs (composing during1 st) \<noteq> []
               then [TextPart
                      (join ([CHR 0x0A, CHR 0x0A] @ ''---'' @ [CHR 0x0A, CHR 0x0A])
                         (map (\<lambda>a. ''DOCUMENT: '' @ [CHR 0x22] @
                                    doc_name (docObjects (composing during1 st) ! a) @ [CHR 0x22] @
                                    [CHR 0x0A, CHR 0x0A] @
                                    textContent (docObjects (composing during1 st) ! a))
                            (attachedDocs (composing during1 st))) @
                       ([CHR 0x0A, CHR 0x0A] @ ''---'' @ [CHR 0x0A, CHR 0x0A]) @
                       ''Based on the document(s) provided, please respond to the following: '' @
                       trim (chatInputValue st))]
               else if trim (chatInputValue st) \<noteq> [] then [TextPart (trim (chatInputValue st))]
               else [])))"
proof (intro conjI impI)
  assume "trim (chatInputValue st) = [] \<and> attachedFiles st = [] \<and> attachedDocs st = []"
  then show "handleChatFormSubmit chat during1 during2 st = (NothingToSend, st)"
    by (simp add: handleChatFormSubmit_def)
next
  let ?s = "composing during1 st"
  assume n: "\<not> (trim (chatInputValue st) = [] \<and> attachedFiles st = [] \<and> attachedDocs st = [])"
  then have r: "fst (handleChatFormSubmit True during1 during2 st) =
      Sent (messageParts ?s (trim (chatInputValue st)))"
    by (auto simp: handleChatFormSubmit_def Let_def)
  have m: "map renderDocument (map (\<lambda>a. docObjects ?s ! a) (attachedDocs ?s)) =
      map (\<lambda>a. ''DOCUMENT: '' @ [CHR 0x22] @ doc_name (docObjects ?s ! a) @ [CHR 0x22] @
                 [CHR 0x0A, CHR 0x0A] @ textContent (docObjects ?s ! a)) (attachedDocs ?s)"
    by (simp add: renderDocument_def paragraphBreak_def)
  show "fst (handleChatFormSubmit True during1 during2 st) =
        Sent (map (\<lambda>f. InlineData (mimeType f) (base64 f)) (attachedFiles ?s) @
              (if attachedDocs ?s \<noteq> []
               then [TextPart
                      (join ([CHR 0x0A, CHR 0x0A] @ ''---'' @ [CHR 0x0A, CHR 0x0A])
                         (map (\<lambda>a. ''DOCUMENT: '' @ [CHR 0x22] @
                                    doc_name (docObjects ?s ! a) @ [CHR 0x22] @
                                    [CHR 0x0A, CHR 0x0A] @
                                    textContent (docObjects ?s ! a))
                            (attachedDocs ?s)) @
                       ([CHR 0x0A, CHR 0x0A] @ ''---'' @ [CHR 0x0A, CHR 0x0A]) @
                       ''Based on the document(s) provided, please respond to the following: '' @
                       trim (chatInputValue st))]
               else if trim (chatInputValue st) \<noteq> [] then [TextPart (trim (chatInputValue st))]
               else []))"
    unfolding r messageParts_def promptText_def Let_def m
    using documentSeparator_nonempty
    by (simp add: documentSeparator_def paragraphBreak_def instructionLine_def)
qed

theorem composed_message_parts_witness:
  "handleChatFormSubmit True [] [] initialState = (NothingToSend, initialState) \<and>
   fst (handleChatFormSubmit True [] [] readyToSend) =
     Sent [InlineData ''image/png'' (Some ''AAAA''),
           TextPart (''DOCUMENT: '' @ [CHR 0x22] @ ''hello.txt'' @ [CHR 0x22] @ [CHR 0x0A, CHR 0x0A] @
                     ''hello'' @ [CHR 0x0A, CHR 0x0A] @ ''---'' @ [CHR 0x0A, CHR 0x0A] @
                     ''Based on the document(s) provided, please respond to the following: Why?'')]"
proof -
  have h1: "trim (chatInputValue initialState) = [] \<and> attachedFiles initialState = [] \<and>
      attachedDocs initialState = []" by code_simp
  have h2: "\<not> (trim (chatInputValue readyToSend) = [] \<and> attachedFiles readyToSend = [] \<and>
      attachedDocs readyToSend = [])" by code_simp
  have r1: "handleChatFormSubmit True [] [] initialState = (NothingToSend, initialState)"
    using composed_message_parts [of initialState True "[]" "[]"] h1 by blast
  note r2 = composed_message_parts [of readyToSend True "[]" "[]", THEN conjunct2, rule_format, OF h2]
  have e: "Sent (map (\<lambda>f. InlineData (mimeType f) (base64 f)) (attachedFiles (composing [] readyToSend)) @
              (if attachedDocs (composing [] readyToSend) \<noteq> []
               then [TextPart
                      (join ([CHR 0x0A, CHR 0x0A] @ ''---'' @ [CHR 0x0A, CHR 0x0A])
                         (map (\<lambda>a. ''DOCUMENT: '' @ [CHR 0x22] @
                                    doc_name (docObjects (composing [] readyToSend) ! a) @ [CHR 0x22] @
                                    [CHR 0x0A, CHR 0x0A] @
                                    textContent (docObjects (composing [] readyToSend) ! a))
                            (attachedDocs (composing [] readyToSend))) @
                       ([CHR 0x0A, CHR 0x0A] @ ''---'' @ [CHR 0x0A, CHR 0x0A]) @
                       ''Based on the document(s) provided, please respond to the following: '' @
                       trim (chatInputValue readyToSend))]
               else if trim (chatInputValue readyToSend) \<noteq> [] then [TextPart (trim (chatInputValue readyToSend))]
               else [])) =
     Sent [InlineData ''image/png'' (Some ''AAAA''),
           TextPart (''DOCUMENT: '' @ [CHR 0x22] @ ''hello.txt'' @ [CHR 0x22] @ [CHR 0x0A, CHR 0x0A] @
                     ''hello'' @ [CHR 0x0A, CHR 0x0A] @ ''---'' @ [CHR 0x0A, CHR 0x0A] @
                     ''Based on the document(s) provided, please respond to the following: Why?'')]"
    by code_simp
  from r1 trans [OF r2 e] show ?thesis by (intro conjI)
qed

section \<open>Extraction in sequence\<close>

lemma notes_hello_calls:
  "map (\<lambda>c. (fst c, fst (snd c))) (fileCalls notesPdf) =
     [(''notes.pdf-1000'', ''Reading document...''),
      (''notes.pdf-1000'', ''Parsing PDF...''),
      (''notes.pdf-1000'', ''Extracting text (Page 1 of 3)...''),
      (''notes.pdf-1000'', ''Extracting text (Page 2 of 3)...''),
      (''notes.pdf-1000'', ''Extracting text (Page 3 of 3)...''),
      (''notes.pdf-1000'', ''notes.pdf'')]"
  "map (\<lambda>c. (fst c, fst (snd c))) (fileCalls helloTxt) =
     [(''hello.txt-1003'', ''Reading document...''),
      (''hello.txt-1003'', ''hello.txt'')]"
  by (simp_all add: fileCalls_def extractCalls_def extractOutcome_def isDocumentFile_def
      startsWith_def notesPdf_def helloTxt_def fileId_def showInt_def decimal.simps digitChar_def
      pageStatus_def paragraphBreak_def Let_def)

text \<open>
  Claim C3, as amended. The documents of a batch are extracted one after the other, in the
  order of the selection, each as a unit of its own under the id of its own file: the
  progress calls of the batch are the calls of its first file, then those of its second,
  and so on, and the document objects created, in the same order, carry the id of their
  own file and the text their own file's extraction yields. The calls and the text of a
  file depend on that file alone: no click on another pill's remove button (which signals
  that document's handle) and no other event changes them. The files reached are all
  files of the batch, unless an extraction ends in an \<open>AbortError\<close>, which ends the
  handler.
\<close>

theorem sequential_extraction:
  "progressCalls (handleFileSelected (Some fs) st) =
     progressCalls st @ concat (map fileCalls (untilAbort fs)) \<and>
   map (\<lambda>d. (doc_id d, textContent d)) (docObjects (handleFileSelected (Some fs) st)) =
     map (\<lambda>d. (doc_id d, textContent d)) (docObjects st) @
     map documentOf (filter isDocumentFile (untilAbort fs)) \<and>
   ((\<forall>f\<in>set fs. \<not> aborts f) \<longrightarrow> untilAbort fs = fs)"
proof -
  note R = handleFileSelected_reached [of fs st]
  have U: "(\<forall>f\<in>set fs. \<not> aborts f) \<longrightarrow> untilAbort fs = fs"
    by (rule impI) (rule untilAbort_all)
  from conjunct1 [OF R] conjunct2 [OF R] U show ?thesis by (intro conjI)
qed

theorem sequential_extraction_witness:
  "\<not> aborts notesPdf \<and> \<not> aborts helloTxt \<and>
   untilAbort [notesPdf, helloTxt] = [notesPdf, helloTxt] \<and>
   progressCalls (handleFileSelected (Some [notesPdf, helloTxt]) picked) =
     progressCalls picked @ concat (map fileCalls (untilAbort [notesPdf, helloTxt])) \<and>
   map (\<lambda>d. (doc_id d, textContent d))
       (docObjects (handleFileSelected (Some [notesPdf, helloTxt]) picked)) =
     [(''notes.pdf-1000'', ''Heat rises.'' @ paragraphBreak @ ''Cold air sinks.'' @
         paragraphBreak @ paragraphBreak),
      (''hello.txt-1003'', ''hello'')]"
proof -
  have n: "\<not> aborts notesPdf" and h: "\<not> aborts helloTxt" by code_simp+
  then have a: "\<forall>f\<in>set [notesPdf, helloTxt]. \<not> aborts f" by simp
  have e: "map (\<lambda>d. (doc_id d, textContent d)) (docObjects picked) @
     map documentOf (filter isDocumentFile (untilAbort [notesPdf, helloTxt])) =
     [(''notes.pdf-1000'', ''Heat rises.'' @ paragraphBreak @ ''Cold air sinks.'' @
         paragraphBreak @ paragraphBreak),
      (''hello.txt-1003'', ''hello'')]" by code_simp
  note T = sequential_extraction [of "[notesPdf, helloTxt]" picked]
  note T1 = conjunct1 [OF T]
  note T2 = conjunct1 [OF conjunct2 [OF T]]
  note T3 = mp [OF conjunct2 [OF conjunct2 [OF T]] a]
  from n h T3 T1 trans [OF T2 e] show ?thesis by (intro conjI)
qed

text \<open>
  Claim C3 as stated fails. A PDF of three pages and a text file are selected together
  and every promise resolves. The text file's first update, which its extraction makes
  before its first suspension, comes after the PDF's last one: the text file's extraction
  begins only when the PDF's has ended. When the PDF's iteration ends the PDF's text is
  complete and there is neither a document object nor a progress call for the text file.
\<close>

theorem one_at_a_time_counterexample:
  "map (\<lambda>c. (fst c, fst (snd c)))
       (progressCalls (handleFileSelected (Some [notesPdf, helloTxt]) picked)) =
     [(''notes.pdf-1000'', ''Reading document...''),
      (''notes.pdf-1000'', ''Parsing PDF...''),
      (''notes.pdf-1000'', ''Extracting text (Page 1 of 3)...''),
      (''notes.pdf-1000'', ''Extracting text (Page 2 of 3)...''),
      (''notes.pdf-1000'', ''Extracting text (Page 3 of 3)...''),
      (''notes.pdf-1000'', ''notes.pdf''),
      (''hello.txt-1003'', ''Reading document...''),
      (''hello.txt-1003'', ''hello.txt'')] \<and>
   map (\<lambda>d. (doc_id d, textContent d))
       (docObjects (fst (processFile notesPdf (toggleChatForm False picked)))) =
     [(''notes.pdf-1000'', ''Heat rises.'' @ paragraphBreak @ ''Cold air sinks.'' @
         paragraphBreak @ paragraphBreak)] \<and>
   ''hello.txt-1003'' \<notin> set (map fst (progressCalls
       (fst (processFile notesPdf (toggleChatForm False picked)))))"
proof -
  have u: "untilAbort [notesPdf, helloTxt] = [notesPdf, helloTxt]" by code_simp
  have p: "progressCalls picked = []" "progressCalls (toggleChatForm False picked) = []"
    by code_simp+
  have 1: "map (\<lambda>c. (fst c, fst (snd c)))
       (progressCalls (handleFileSelected (Some [notesPdf, helloTxt]) picked)) =
     map (\<lambda>c. (fst c, fst (snd c))) (fileCalls notesPdf) @
     map (\<lambda>c. (fst c, fst (snd c))) (fileCalls helloTxt)"
  proof -
    have "progressCalls (handleFileSelected (Some [notesPdf, helloTxt]) picked) =
        progressCalls picked @ concat (map fileCalls [notesPdf, helloTxt])"
      using conjunct1 [OF handleFileSelected_reached [of "[notesPdf, helloTxt]" picked]]
      unfolding u .
    then show ?thesis by (simp add: p)
  qed
  have 2: "map (\<lambda>d. (doc_id d, textContent d))
       (docObjects (fst (processFile notesPdf (toggleChatForm False picked)))) =
     [(''notes.pdf-1000'', ''Heat rises.'' @ paragraphBreak @ ''Cold air sinks.'' @
         paragraphBreak @ paragraphBreak)]"
  proof -
    have "map (\<lambda>d. (doc_id d, textContent d)) (docObjects (toggleChatForm False picked)) @
        (if isDocumentFile notesPdf then [documentOf notesPdf] else []) =
        [(''notes.pdf-1000'', ''Heat rises.'' @ paragraphBreak @ ''Cold air sinks.'' @
         paragraphBreak @ paragraphBreak)]" by code_simp
    then show ?thesis using processFile_texts [of notesPdf "toggleChatForm False picked"] by simp
  qed
  have 3: "map fst (progressCalls (fst (processFile notesPdf (toggleChatForm False picked)))) =
      map fst (map (\<lambda>c. (fst c, fst (snd c))) (fileCalls notesPdf))"
    using processFile_calls [of notesPdf "toggleChatForm False picked"] by (simp add: p comp_def)
  have 4: "''hello.txt-1003'' \<notin> set (map fst (progressCalls
       (fst (processFile notesPdf (toggleChatForm False picked)))))"
    unfolding 3 notes_hello_calls by simp
  from 1 [unfolded notes_hello_calls append.simps] 2 4 show ?thesis by (intro conjI)
qed

section \<open>An abort and the rest of the batch\<close>












text \<open>
  Claim C10. When the extraction of a document of the batch ends in an \<open>AbortError\<close>,
  the handler returns from inside the loop: the files after it are skipped (the handler
  does what it does on the batch cut off after that file), the form stays disabled and
  the file input keeps its value.
\<close>

theorem abort_leaves_handler:
  assumes "aborts f"
  shows "handleFileSelected (Some (pre @ f # rest)) st = handleFileSelected (Some (pre @ [f])) st \<and>
         \<not> formEnabled (handleFileSelected (Some (pre @ f # rest)) st) \<and>
         fileInputValue (handleFileSelected (Some (pre @ f # rest)) st) = fileInputValue st"
proof -
  let ?st0 = "toggleChatForm False st"
  obtain st1 where r: "processFiles (pre @ f # rest) ?st0 = (st1, Return)"
    using processFiles_abort(2) [OF assms, of pre rest ?st0]
    by (cases "processFiles (pre @ f # rest) ?st0") auto
  have e: "processFiles (pre @ [f]) ?st0 = (st1, Return)"
    using processFiles_abort(1) [OF assms, of pre rest ?st0] r by simp
  have f1: "formEnabled st1 = formEnabled ?st0" and f2: "fileInputValue st1 = fileInputValue ?st0"
    using processFiles_frame [of "pre @ f # rest" ?st0] r by simp_all
  have h: "handleFileSelected (Some (pre @ f # rest)) st = st1"
    by (simp add: handleFileSelected_def r)
  have "handleFileSelected (Some (pre @ f # rest)) st = handleFileSelected (Some (pre @ [f])) st"
    by (simp add: handleFileSelected_def r e)
  moreover have "\<not> formEnabled (handleFileSelected (Some (pre @ f # rest)) st)"
    using f1 by (simp add: h toggleChatForm_def)
  moreover have "fileInputValue (handleFileSelected (Some (pre @ f # rest)) st) = fileInputValue st"
    using f2 by (simp add: h toggleChatForm_def)
  ultimately show ?thesis by simp
qed

theorem abort_leaves_handler_witness:
  "aborts cancelledPdf \<and>
   handleFileSelected (Some ([helloTxt] @ cancelledPdf # [notesPdf])) picked =
     handleFileSelected (Some ([helloTxt] @ [cancelledPdf])) picked \<and>
   \<not> formEnabled (handleFileSelected (Some ([helloTxt] @ cancelledPdf # [notesPdf])) picked) \<and>
   fileInputValue (handleFileSelected (Some ([helloTxt] @ cancelledPdf # [notesPdf])) picked) =
     fileInputValue picked"
proof -
  have a: "aborts cancelledPdf" by code_simp
  from a abort_leaves_handler [OF a, of "[helloTxt]" "[notesPdf]" picked] show ?thesis by blast
qed

section \<open>Cancellation handles\<close>

lemma handlesPresent_renderAttachments [simp]:
  "handlesPresent (renderAttachments st) = handlesPresent st"
  by (simp add: handlesPresent_def)

lemma handlesPresent_updateProgress [simp]:
  "handlesPresent (updateProgress pl fid s pc st) = handlesPresent st"
  by (simp add: handlesPresent_def)

lemma handlesPresent_setProcessing [simp]:
  "handlesPresent (setProcessing pl b st) = handlesPresent st"
  by (simp add: handlesPresent_def)

lemma handlesPresent_addErrorClass [simp]:
  "handlesPresent (addErrorClass pl st) = handlesPresent st"
  by (simp add: handlesPresent_def)

lemma controller_after_update:
  "b < length xs \<Longrightarrow> \<exists>c. abortController (xs ! b) = Some c \<Longrightarrow>
     (a = b \<Longrightarrow> \<exists>c. abortController y = Some c) \<Longrightarrow>
     \<exists>c. abortController (xs[a := y] ! b) = Some c"
  by (cases "a = b") simp_all

lemma handlesPresent_abortDoc: "handlesPresent st \<Longrightarrow> handlesPresent (abortDoc i st)"
  by (auto simp: handlesPresent_def abortDoc_def split: option.splits
      intro!: controller_after_update)

lemma handlesPresent_filterAttachments:
  "handlesPresent st \<Longrightarrow> handlesPresent (filterAttachments i st)"
  by (simp add: handlesPresent_def)

lemma handlesPresent_handleEvent: "handlesPresent st \<Longrightarrow> handlesPresent (handleEvent e st)"
proof (cases e)
  case (RemoveClick i answer)
  assume "handlesPresent st"
  then show ?thesis
    by (simp add: RemoveClick removeAttachment_def handlesPresent_abortDoc
        handlesPresent_filterAttachments)
next
  case (ImageLoaded k url)
  assume "handlesPresent st"
  then show ?thesis
    by (simp add: ImageLoaded readerOnload_def split: prod.splits)
       (simp add: handlesPresent_def)
next
  case NewChatClick
  then show ?thesis by (simp add: handleNewChat_def) (simp add: handlesPresent_def)
qed

lemma handlesPresent_runEvents: "handlesPresent st \<Longrightarrow> handlesPresent (runEvents es st)"
  by (rule runEvents_preserves) (rule handlesPresent_handleEvent)

lemma handlesPresent_pushDocument:
  "handlesPresent st \<Longrightarrow> handlesPresent (pushDocument fid nm st)"
  by (auto simp: handlesPresent_def nth_append newDocument_def)

lemma handlesPresent_setTextContent:
  "handlesPresent st \<Longrightarrow> handlesPresent (setTextContent a t st)"
  by (auto simp: handlesPresent_def setTextContent_def intro!: controller_after_update)

lemma handlesPresent_finishDocument:
  "handlesPresent st \<Longrightarrow> handlesPresent (fst (finishDocument a pl fid nm r st))"
  by (auto simp: finishDocument_def handlesPresent_setTextContent split: sum.splits err.splits)
     (simp add: handlesPresent_def)

lemma handlesPresent_processFile:
  assumes "handlesPresent st"
  shows "handlesPresent (fst (processFile f st))"
proof (cases "isDocumentFile f")
  case True
  let ?fid = "fileId (sf_name f) (sf_now f)"
  let ?st1 = "pushDocument ?fid (sf_name f) st"
  have "handlesPresent (fst (tryBody (getElementById ?st1 ?fid) ?fid f ?st1))"
    by (rule tryBody_preserves)
       (simp_all add: handlesPresent_runEvents handlesPresent_pushDocument assms)
  then show ?thesis
    by (simp add: processFile_document [OF True] Let_def handlesPresent_finishDocument)
next
  case False
  then show ?thesis
    using assms isDocumentFile_branch(2) [OF False]
    by (auto simp: processFile_def Let_def handlesPresent_def)
qed

lemma handlesPresent_processFiles:
  "handlesPresent st \<Longrightarrow> handlesPresent (fst (processFiles fs st))"
proof (induction fs arbitrary: st)
  case Nil
  then show ?case by simp
next
  case (Cons f fs)
  have "handlesPresent (fst (processFile f st))"
    using Cons.prems by (rule handlesPresent_processFile)
  then show ?case using Cons.IH [of "fst (processFile f st)"]
    by (cases "processFile f st") (auto split: flow.splits)
qed

lemma handlesPresent_handleFileSelected:
  assumes "handlesPresent st"
  shows "handlesPresent (handleFileSelected files st)"
proof (cases files)
  case None
  then show ?thesis using assms by (simp add: handleFileSelected_def)
next
  case (Some fs)
  have "handlesPresent (toggleChatForm False st)"
    using assms by (simp add: handlesPresent_def toggleChatForm_def)
  then have "handlesPresent (fst (processFiles fs (toggleChatForm False st)))"
    by (rule handlesPresent_processFiles)
  then show ?thesis
    by (cases "processFiles fs (toggleChatForm False st)")
       (auto simp: Some handleFileSelected_def handlesPresent_def toggleChatForm_def
          split: flow.splits)
qed

lemma handlesPresent_handleChatFormSubmit:
  assumes "handlesPresent st"
  shows "handlesPresent (snd (handleChatFormSubmit chat during1 during2 st))"
proof -
  have "handlesPresent (renderAttachments
      ((composing during1 st)\<lparr>attachedFiles := [], attachedDocs := []\<rparr>))"
    by (simp add: handlesPresent_def)
  then have "handlesPresent (runEvents during2 (renderAttachments
      ((composing during1 st)\<lparr>attachedFiles := [], attachedDocs := []\<rparr>)))"
    by (rule handlesPresent_runEvents)
  then have "handlesPresent (toggleChatForm True (runEvents during2 (renderAttachments
      ((composing during1 st)\<lparr>attachedFiles := [], attachedDocs := []\<rparr>))))"
    by (simp add: handlesPresent_def toggleChatForm_def)
  then show ?thesis using assms by (simp add: handleChatFormSubmit_def Let_def)
qed

text \<open>
  Claim C5, as amended. Every document in the registry has its cancellation handle,
  whether its extraction is in progress or has ended: the handle is set when the document
  is created and no handler clears it. This holds when the page is loaded and is kept by
  a file selection (with whatever happens while it is suspended), by every handler that
  runs in between, and by a send.
\<close>

theorem handles_never_cleared:
  "handlesPresent initialState \<and>
   (handlesPresent st \<longrightarrow>
      handlesPresent (handleFileSelected files st) \<and>
      handlesPresent (runEvents es st) \<and>
      handlesPresent (snd (handleChatFormSubmit chat during1 during2 st)))"
proof -
  have "handlesPresent initialState" by (simp add: handlesPresent_def initialState_def)
  then show ?thesis
    by (simp add: handlesPresent_handleFileSelected handlesPresent_runEvents
        handlesPresent_handleChatFormSubmit)
qed

theorem handles_never_cleared_witness:
  "handlesPresent oneDocument \<and> attachedDocs oneDocument = [0] \<and>
   handlesPresent (handleFileSelected (Some [notesPdf]) oneDocument) \<and>
   handlesPresent (runEvents [RemoveClick ''hello.txt-1003'' False] oneDocument) \<and>
   handlesPresent (snd (handleChatFormSubmit True [] [] oneDocument))"
proof -
  have h: "handlesPresent oneDocument" and d: "attachedDocs oneDocument = [0]" by code_simp+
  from h d handles_never_cleared [of oneDocument "Some [notesPdf]"
      "[RemoveClick ''hello.txt-1003'' False]" True "[]" "[]"]
  show ?thesis by blast
qed

text \<open>
  Claim C5 as stated fails. After a text file has been read the handler has returned and
  the pill is no longer processing, yet the document is in the registry with its handle.
\<close>

theorem handle_after_success_counterexample:
  "attachedDocs oneDocument = [0] \<and>
   textContent (docObjects oneDocument ! 0) = ''hello'' \<and>
   getElementById oneDocument ''hello.txt-1003'' = Some 0 \<and>
   formEnabled oneDocument \<and>
   \<not> (abortController (docObjects oneDocument ! 0) \<noteq> None \<longleftrightarrow>
        processing (pills oneDocument ! 0))"
  by code_simp

section \<open>Results that arrive after a removal\<close>

lemma removedDocument_handleEvent:
  assumes "removedDocument a fid st"
  shows "removedDocument a fid (handleEvent e st)"
  unfolding removedDocument_def
proof (intro conjI ballI)
  from assms have a: "a < length (docObjects st)" by (simp add: removedDocument_def)
  show "a < length (docObjects (handleEvent e st))" using a by (simp add: handleEvent_doc)
  show "doc_id (docObjects (handleEvent e st) ! a) = fid"
    using assms a by (simp add: handleEvent_doc removedDocument_def)
  fix b assume "b \<in> set (attachedDocs (handleEvent e st))"
  then have b: "b \<in> set (attachedDocs st)" using handleEvent_registry by blast
  with assms have bl: "b < length (docObjects st)" and bi: "doc_id (docObjects st ! b) \<noteq> fid"
    by (simp_all add: removedDocument_def)
  show "b < length (docObjects (handleEvent e st))" using bl by (simp add: handleEvent_doc)
  show "doc_id (docObjects (handleEvent e st) ! b) \<noteq> fid" using bl bi by (simp add: handleEvent_doc)
qed

lemma removedDocument_runEvents:
  "removedDocument a fid st \<Longrightarrow> removedDocument a fid (runEvents es st)"
  by (rule runEvents_preserves) (rule removedDocument_handleEvent)

lemma removedDocument_display [simp]:
  "removedDocument a fid (updateProgress pl fid' s pc st) = removedDocument a fid st"
  "removedDocument a fid (setProcessing pl b st) = removedDocument a fid st"
  "removedDocument a fid (addErrorClass pl st) = removedDocument a fid st"
  by (simp_all add: removedDocument_def)

lemma registryView_display [simp]:
  "registryView (updateProgress pl fid' s pc st) = registryView st"
  "registryView (setProcessing pl b st) = registryView st"
  "registryView (addErrorClass pl st) = registryView st"
  by (simp_all add: registryView_def)

lemma removedDocument_not_attached: "removedDocument a fid st \<Longrightarrow> a \<notin> set (attachedDocs st)"
  by (auto simp: removedDocument_def)

lemma removedDocument_setTextContent:
  assumes "removedDocument a fid st"
  shows "removedDocument a fid (setTextContent a t st)"
    and "registryView (setTextContent a t st) = registryView st"
proof -
  have n: "\<forall>b\<in>set (attachedDocs st). a \<noteq> b"
    using removedDocument_not_attached [OF assms] by blast
  have d: "\<forall>b\<in>set (attachedDocs st).
      (docObjects st)[a := (docObjects st ! a)\<lparr>textContent := t\<rparr>] ! b = docObjects st ! b"
    using n by simp
  show "removedDocument a fid (setTextContent a t st)"
    using assms d by (simp add: removedDocument_def setTextContent_def)
  show "registryView (setTextContent a t st) = registryView st"
    using d by (simp add: registryView_def setTextContent_def)
qed

lemma removedDocument_filter:
  assumes "removedDocument a fid st"
  shows "filter (\<lambda>b. doc_id (docObjects st ! b) \<noteq> fid) (attachedDocs st) = attachedDocs st"
  using assms by (simp add: removedDocument_def)

lemma removedDocument_finishDocument:
  assumes "removedDocument a fid st"
  shows "removedDocument a fid (fst (finishDocument a pl fid nm r st))"
    and "registryView (fst (finishDocument a pl fid nm r st)) = registryView st"
proof -
  note s = removedDocument_setTextContent [OF assms]
  have f: "st\<lparr>attachedDocs := filter (\<lambda>b. doc_id (docObjects st ! b) \<noteq> fid) (attachedDocs st)\<rparr> = st"
    by (simp add: removedDocument_filter [OF assms])
  show "removedDocument a fid (fst (finishDocument a pl fid nm r st))"
    using assms s(1)
    by (simp add: finishDocument_def f split: sum.splits err.splits)
  show "registryView (fst (finishDocument a pl fid nm r st)) = registryView st"
    using s(2)
    by (simp add: finishDocument_def f split: sum.splits err.splits)
qed

lemma removedDocument_removeAttachment:
  assumes "registryInStore st" and "a < length (docObjects st)"
    and "doc_id (docObjects st ! a) = fid" and "isProcessing st fid \<or> answer"
  shows "removedDocument a fid (removeAttachment fid answer st)"
  using assms by (auto simp: removedDocument_def removeAttachment_def registryInStore_def)

lemma removedDocument_handleNewChat:
  assumes "a < length (docObjects st)" and "doc_id (docObjects st ! a) = fid"
  shows "removedDocument a fid (handleNewChat st)"
  using assms by (simp add: removedDocument_def handleNewChat_def)

text \<open>
  Claim C6. Once a document has been removed from the registry, by the remove button
  (which also cancels it) or by a new chat, whatever its extraction still delivers changes
  nothing in the registry: a progress update, the extracted text, a failure and an abort
  all leave every snapshot of the registry as it was, the document is not put back, and
  this stays so through whatever other handlers run in between.
\<close>

theorem late_result_discarded:
  "(registryInStore st \<and> a < length (docObjects st) \<and> doc_id (docObjects st ! a) = fid \<longrightarrow>
      (isProcessing st fid \<or> answer \<longrightarrow> removedDocument a fid (removeAttachment fid answer st)) \<and>
      removedDocument a fid (handleNewChat st)) \<and>
   (removedDocument a fid st \<longrightarrow>
      a \<notin> set (attachedDocs st) \<and>
      registryView (updateProgress pl fid s pc st) = registryView st \<and>
      registryView (fst (finishDocument a pl fid nm r st)) = registryView st \<and>
      removedDocument a fid (updateProgress pl fid s pc st) \<and>
      removedDocument a fid (fst (finishDocument a pl fid nm r st)) \<and>
      removedDocument a fid (runEvents es st))"
proof (intro conjI impI)
  assume h: "registryInStore st \<and> a < length (docObjects st) \<and> doc_id (docObjects st ! a) = fid"
  then show "removedDocument a fid (handleNewChat st)"
    by (simp add: removedDocument_handleNewChat)
  assume "isProcessing st fid \<or> answer"
  with h show "removedDocument a fid (removeAttachment fid answer st)"
    by (simp add: removedDocument_removeAttachment)
next
  assume r: "removedDocument a fid st"
  show "a \<notin> set (attachedDocs st)" using r by (rule removedDocument_not_attached)
  show "registryView (updateProgress pl fid s pc st) = registryView st"
    by simp
  show "registryView (fst (finishDocument a pl fid nm r st)) = registryView st"
    using r by (rule removedDocument_finishDocument)
  show "removedDocument a fid (updateProgress pl fid s pc st)"
    using r by simp
  show "removedDocument a fid (fst (finishDocument a pl fid nm r st))"
    using r by (rule removedDocument_finishDocument)
  show "removedDocument a fid (runEvents es st)"
    using r by (rule removedDocument_runEvents)
qed

theorem late_result_discarded_witness:
  "registryInStore extracting \<and> doc_id (docObjects extracting ! 0) = ''a.pdf-7'' \<and>
   isProcessing extracting ''a.pdf-7'' \<and>
   removedDocument 0 ''a.pdf-7'' (removeAttachment ''a.pdf-7'' False extracting) \<and>
   registryView (fst (finishDocument 0 (Some 0) ''a.pdf-7'' ''a.pdf'' (Inr ''late text'')
       (removeAttachment ''a.pdf-7'' False extracting))) =
     registryView (removeAttachment ''a.pdf-7'' False extracting) \<and>
   registryView (removeAttachment ''a.pdf-7'' False extracting) = ([], []) \<and>
   textContent (docObjects (fst (finishDocument 0 (Some 0) ''a.pdf-7'' ''a.pdf'' (Inr ''late text'')
       (removeAttachment ''a.pdf-7'' False extracting))) ! 0) = ''late text''"
proof -
  let ?st = "removeAttachment ''a.pdf-7'' False extracting"
  have h: "registryInStore extracting \<and> 0 < length (docObjects extracting) \<and>
      doc_id (docObjects extracting ! 0) = ''a.pdf-7''" by code_simp
  have p: "isProcessing extracting ''a.pdf-7''" by code_simp
  have v: "registryView ?st = ([], [])" by code_simp
  have t: "textContent (docObjects (fst (finishDocument 0 (Some 0) ''a.pdf-7'' ''a.pdf''
      (Inr ''late text'') ?st)) ! 0) = ''late text''" by code_simp
  have q: "isProcessing extracting ''a.pdf-7'' \<or> False" using p by simp
  note A = late_result_discarded [of extracting 0 "''a.pdf-7''" False, THEN conjunct1, rule_format,
      OF h, THEN conjunct1, rule_format, OF q]
  note B = late_result_discarded [of ?st 0 "''a.pdf-7''" False "Some 0" "''a.pdf''" None "''a.pdf''"
      "Inr ''late text''" "[]", THEN conjunct2, rule_format, OF A]
  note C = B [THEN conjunct2, THEN conjunct2, THEN conjunct1]
  from h have h1: "registryInStore extracting" and h2: "doc_id (docObjects extracting ! 0) = ''a.pdf-7''"
    by simp_all
  from h1 h2 p A C v t show ?thesis by (intro conjI)
qed

section \<open>Removal\<close>








lemma display_container [simp]:
  "container (updateProgress pl fid s pc st) = container st"
  "container (setProcessing pl b st) = container st"
  "container (addErrorClass pl st) = container st"
  "container (setTextContent a t st) = container st"
  by (simp_all add: updateProgress_def setProcessing_def addErrorClass_def setTextContent_def
      Let_def split: option.splits)














section \<open>A failed extraction\<close>

lemma docPill_handleEvent:
  "p < length (pills st) \<and> docPill (pills st ! p) \<Longrightarrow>
     p < length (pills (handleEvent e st)) \<and> docPill (pills (handleEvent e st) ! p)"
  using handleEvent_pills [of st e] by auto

lemma docPill_runEvents:
  "p < length (pills st) \<and> docPill (pills st ! p) \<Longrightarrow>
     p < length (pills (runEvents es st)) \<and> docPill (pills (runEvents es st) ! p)"
  by (rule runEvents_preserves [where P = "\<lambda>s. p < length (pills s) \<and> docPill (pills s ! p)"])
     (rule docPill_handleEvent)

lemma docPill_after_update:
  "p < length xs \<Longrightarrow> docPill (xs ! p) \<Longrightarrow> (q = p \<Longrightarrow> docPill y) \<Longrightarrow> docPill (xs[q := y] ! p)"
  by (cases "q = p") simp_all

lemma docPill_updateProgress:
  "p < length (pills st) \<and> docPill (pills st ! p) \<Longrightarrow>
     p < length (pills (updateProgress pl fid s pc st)) \<and>
     docPill (pills (updateProgress pl fid s pc st) ! p)"
  by (auto simp: updateProgress_def Let_def split: option.splits intro!: docPill_after_update)

lemma docPill_setProcessing:
  "p < length (pills st) \<and> docPill (pills st ! p) \<Longrightarrow>
     p < length (pills (setProcessing pl b st)) \<and>
     docPill (pills (setProcessing pl b st) ! p)"
  by (auto simp: setProcessing_def split: option.splits intro!: docPill_after_update)

lemma docPill_tryBody:
  "p < length (pills st) \<and> docPill (pills st ! p) \<Longrightarrow>
     p < length (pills (fst (tryBody pl fid f st))) \<and>
     docPill (pills (fst (tryBody pl fid f st)) ! p)"
  by (rule tryBody_preserves [where P = "\<lambda>s. p < length (pills s) \<and> docPill (pills s ! p)"])
     (simp_all add: docPill_updateProgress docPill_runEvents docPill_setProcessing)

lemma ownDocument_tryBody:
  "a < length (docObjects st) \<and> doc_id (docObjects st ! a) = i \<Longrightarrow>
     a < length (docObjects (fst (tryBody pl fid f st))) \<and>
     doc_id (docObjects (fst (tryBody pl fid f st)) ! a) = i"
  by (rule tryBody_preserves
        [where P = "\<lambda>s. a < length (docObjects s) \<and> doc_id (docObjects s ! a) = i"])
     (simp_all add: runEvents_doc)

lemma error_mark:
  assumes "p < length (pills st)" and "docPill (pills st ! p)"
  shows "p < length (pills (setProcessing (Some p) False
            (updateProgress (Some p) fid s None (addErrorClass (Some p) st)))) \<and>
         errorClass (pills (setProcessing (Some p) False
            (updateProgress (Some p) fid s None (addErrorClass (Some p) st))) ! p) \<and>
         fileNameText (pills (setProcessing (Some p) False
            (updateProgress (Some p) fid s None (addErrorClass (Some p) st))) ! p) = s \<and>
         barHidden (pills (setProcessing (Some p) False
            (updateProgress (Some p) fid s None (addErrorClass (Some p) st))) ! p) \<and>
         \<not> processing (pills (setProcessing (Some p) False
            (updateProgress (Some p) fid s None (addErrorClass (Some p) st))) ! p)"
  using assms by (simp add: setProcessing_def updateProgress_def addErrorClass_def)

end
